theory Spec2Isabelle
  imports Complex_Main "HOL-Library.Sublist"
begin

unbundle bit_operations_syntax

section \<open>JavaScript primitives used by GSfc4q.js\<close>

text \<open>
  BigInt values are unbounded integers (\<open>int\<close>); their bitwise operators act on the
  infinite two's-complement representation, exactly as \<open>AND\<close>, \<open>OR\<close>, \<open>XOR\<close>,
  \<open>push_bit\<close> and \<open>drop_bit\<close> do on \<open>int\<close>. BigInt division truncates towards zero.
\<close>

definition bigint_div :: "int \<Rightarrow> int \<Rightarrow> int" where
  "bigint_div a b = sgn a * sgn b * (\<bar>a\<bar> div \<bar>b\<bar>)"

text \<open>Binary digits of a natural number, most significant first (\<open>"0"\<close> for zero).\<close>

function bin_digits :: "nat \<Rightarrow> string" where
  "bin_digits n =
     (if n < 2 then [if n = 0 then CHR ''0'' else CHR ''1'']
      else bin_digits (n div 2) @ [if even n then CHR ''0'' else CHR ''1''])"
  by pat_completeness auto
termination
  by (relation "measure id") auto

declare bin_digits.simps [simp del]

text \<open>\<open>x.toString(2)\<close> on a BigInt: a minus sign in front of the digits of a negative value.\<close>

definition bigint_toString2 :: "int \<Rightarrow> string" where
  "bigint_toString2 x =
     (if x < 0 then CHR ''-'' # bin_digits (nat (- x)) else bin_digits (nat x))"

text \<open>
  \<open>Number(x)\<close> on a BigInt: the nearest IEEE-754 double, ties to even. A double has a
  53-bit significand, so integers of at most 53 bits are kept and longer ones are rounded to
  53 significant bits. (Magnitudes from \<open>2^1024\<close> on, where JavaScript yields
  \<open>Infinity\<close>, are outside this integer-valued model.)
\<close>

definition js_Number :: "int \<Rightarrow> int" where
  "js_Number x =
     (let a = \<bar>x\<bar>; len = length (bigint_toString2 a) in
      if len \<le> 53 then x
      else
        let e = len - 53; q = a div 2 ^ e; r = a mod 2 ^ e; half = 2 ^ (e - 1);
            q' = (if half < r \<or> (r = half \<and> odd q) then q + 1 else q)
        in sgn x * (q' * 2 ^ e))"

text \<open>
  A Number is a double: \<open>Fin q\<close> is a finite one, \<open>PosInf\<close>, \<open>NegInf\<close> and \<open>NaN\<close> are
  \<open>Infinity\<close>, \<open>-Infinity\<close> and \<open>NaN\<close>. The model lets \<open>q\<close> be any rational, the doubles
  being among them, and has one zero: \<open>-0\<close> behaves as \<open>0\<close> in every operation modelled here
  (truthiness, \<open>Math.ceil\<close>, \<open>!=\<close>, \<open>BigInt(...)\<close>, \<open>>>> 0\<close>).
\<close>

datatype js_num = Fin rat | PosInf | NegInf | NaN

definition Math_ceil :: "js_num \<Rightarrow> js_num" where
  "Math_ceil x =
     (case x of Fin q \<Rightarrow> Fin (of_int \<lceil>q\<rceil>) | PosInf \<Rightarrow> PosInf | NegInf \<Rightarrow> NegInf | NaN \<Rightarrow> NaN)"

text \<open>\<open>x != y\<close> on two Numbers: \<open>NaN\<close> differs from everything, itself included.\<close>

definition num_neq :: "js_num \<Rightarrow> js_num \<Rightarrow> bool" where
  "num_neq x y = (x = NaN \<or> y = NaN \<or> x \<noteq> y)"

text \<open>
  \<open>x - d\<close> for a Number \<open>x\<close> and a finite \<open>d\<close>. On a finite \<open>x\<close> the model subtracts
  exactly; the source subtracts \<open>0.5\<close> only from an integer \<open>x\<close> that is the ceiling of a
  double with a fractional part, so of magnitude at most \<open>2^52\<close>, where the double
  subtraction is exact too.
\<close>

definition num_minus :: "js_num \<Rightarrow> rat \<Rightarrow> js_num" where
  "num_minus x d =
     (case x of Fin q \<Rightarrow> Fin (q - d) | PosInf \<Rightarrow> PosInf | NegInf \<Rightarrow> NegInf | NaN \<Rightarrow> NaN)"

definition num_neg :: "js_num \<Rightarrow> js_num" where
  "num_neg x = (case x of Fin q \<Rightarrow> Fin (- q) | PosInf \<Rightarrow> NegInf | NegInf \<Rightarrow> PosInf | NaN \<Rightarrow> NaN)"

text \<open>
  \<open>x >>> 0\<close>, the conversion of a Number to an unsigned 32-bit integer: the fraction is
  dropped and the result taken modulo \<open>2^32\<close>; \<open>NaN\<close> and the infinities give \<open>0\<close>.
\<close>

definition ToUint32 :: "js_num \<Rightarrow> int" where
  "ToUint32 x =
     (case x of
        Fin q \<Rightarrow> (if 0 \<le> q then \<lfloor>q\<rfloor> else \<lceil>q\<rceil>) mod 2 ^ 32
      | PosInf \<Rightarrow> 0 | NegInf \<Rightarrow> 0 | NaN \<Rightarrow> 0)"

subsection \<open>Strings read as Numbers\<close>

text \<open>
  The value of a numeric literal is rounded to the nearest double, ties to even, which is
  what the engines do for a literal of any length: with
  \<open>2^e \<le> |q| < 2^(e+1)\<close> the doubles around \<open>q\<close> are the multiples of \<open>2^(e-52)\<close>, of
  \<open>2^(-1074)\<close> below the normal range, and a result of \<open>2^1024\<close> or more is an infinity.
\<close>

definition pow2 :: "int \<Rightarrow> rat" where
  "pow2 e = (if 0 \<le> e then 2 ^ nat e else 1 / 2 ^ nat (- e))"

definition pow10 :: "int \<Rightarrow> rat" where
  "pow10 e = (if 0 \<le> e then 10 ^ nat e else 1 / 10 ^ nat (- e))"

definition round_half_even :: "rat \<Rightarrow> int" where
  "round_half_even x =
     (let f = \<lfloor>x\<rfloor>; r = x - of_int f
      in if r < 1 / 2 then f else if 1 / 2 < r then f + 1 else if even f then f else f + 1)"

function bit_length :: "int \<Rightarrow> int" where
  "bit_length n = (if n \<le> 0 then 0 else 1 + bit_length (n div 2))"
  by pat_completeness auto
termination
  by (relation "measure nat") auto

declare bit_length.simps [simp del]

definition floor_log2 :: "rat \<Rightarrow> int" where
  "floor_log2 q =
     (let (a, b) = quotient_of q;
          e = bit_length a - bit_length b
      in if pow2 e \<le> q then e else e - 1)"

definition round_double :: "rat \<Rightarrow> js_num" where
  "round_double q =
     (if q = 0 then Fin 0
      else
        let a = \<bar>q\<bar>;
            e = max (floor_log2 a) (- 1022);
            ulp = pow2 (e - 52);
            v = of_int (round_half_even (a / ulp)) * ulp
        in if pow2 1024 \<le> v then (if 0 < q then PosInf else NegInf)
           else Fin (if 0 < q then v else - v))"

text \<open>
  The digits of the bases up to 16 and their values, and the white space that the
  conversions of a string to a Number or to a BigInt skip at its two ends. A \<open>char\<close> is an
  8-bit character, so of the white space of JavaScript the model has TAB, LF, VT, FF, CR,
  SP and NBSP.
\<close>

definition hex_value :: "char \<Rightarrow> nat option" where
  "hex_value c =
     (let n = (of_char c :: nat) in
      if 48 \<le> n \<and> n \<le> 57 then Some (n - 48)
      else if 97 \<le> n \<and> n \<le> 102 then Some (n - 87)
      else if 65 \<le> n \<and> n \<le> 70 then Some (n - 55)
      else None)"

definition is_digit_of :: "nat \<Rightarrow> char \<Rightarrow> bool" where
  "is_digit_of b c = (case hex_value c of None \<Rightarrow> False | Some v \<Rightarrow> v < b)"

definition digits_value :: "int \<Rightarrow> string \<Rightarrow> int" where
  "digits_value b s = foldl (\<lambda>a c. b * a + int (the (hex_value c))) 0 s"

definition StrWhiteSpaceChar :: "char \<Rightarrow> bool" where
  "StrWhiteSpaceChar c = ((of_char c :: nat) \<in> {9, 10, 11, 12, 13, 32, 160})"

definition trim_end :: "string \<Rightarrow> string" where
  "trim_end s = rev (dropWhile StrWhiteSpaceChar (rev s))"

definition trim :: "string \<Rightarrow> string" where
  "trim s = trim_end (dropWhile StrWhiteSpaceChar s)"

text \<open>
  \<open>StringToNumber\<close> of the language, by the productions of its grammar: white space,
  then nothing (the value \<open>0\<close>), or a binary, octal or hexadecimal integer with its prefix
  and no sign, or an optionally signed decimal literal, which is \<open>Infinity\<close> or digits with
  an optional fraction and an optional exponent. Anything else is \<open>NaN\<close>.
\<close>

definition NonDecimalIntegerLiteral :: "string \<Rightarrow> int option" where
  "NonDecimalIntegerLiteral s =
     (case s of
        c0 # c1 # ds \<Rightarrow>
          if c0 = CHR ''0'' \<and> ds \<noteq> [] then
            (if (c1 = CHR ''b'' \<or> c1 = CHR ''B'') \<and> list_all (is_digit_of 2) ds
               then Some (digits_value 2 ds)
             else if (c1 = CHR ''o'' \<or> c1 = CHR ''O'') \<and> list_all (is_digit_of 8) ds
               then Some (digits_value 8 ds)
             else if (c1 = CHR ''x'' \<or> c1 = CHR ''X'') \<and> list_all (is_digit_of 16) ds
               then Some (digits_value 16 ds)
             else None)
          else None
      | _ \<Rightarrow> None)"

definition DecimalDigits :: "string \<Rightarrow> bool" where
  "DecimalDigits s = (s \<noteq> [] \<and> list_all (is_digit_of 10) s)"

definition SignedInteger :: "string \<Rightarrow> int option" where
  "SignedInteger s =
     (case s of
        [] \<Rightarrow> None
      | c # ds \<Rightarrow>
          if c = CHR ''+'' then (if DecimalDigits ds then Some (digits_value 10 ds) else None)
          else if c = CHR ''-'' then (if DecimalDigits ds then Some (- digits_value 10 ds) else None)
          else if DecimalDigits s then Some (digits_value 10 s)
          else None)"

definition StrUnsignedDecimalLiteral :: "string \<Rightarrow> js_num option" where
  "StrUnsignedDecimalLiteral s =
     (if s = ''Infinity'' then Some PosInf
      else
        let isE = (\<lambda>c. c = CHR ''e'' \<or> c = CHR ''E'');
            m = takeWhile (\<lambda>c. \<not> isE c) s;
            x = dropWhile (\<lambda>c. \<not> isE c) s;
            ip = takeWhile (is_digit_of 10) m;
            r = dropWhile (is_digit_of 10) m;
            fp = (case r of
                    [] \<Rightarrow> if ip \<noteq> [] then Some [] else None
                  | c # f \<Rightarrow>
                      if c = CHR ''.'' \<and> list_all (is_digit_of 10) f \<and> (ip \<noteq> [] \<or> f \<noteq> [])
                      then Some f else None);
            ex = (case x of [] \<Rightarrow> Some 0 | c # t \<Rightarrow> SignedInteger t)
        in case (fp, ex) of
             (Some f, Some n) \<Rightarrow>
               Some (round_double (of_int (digits_value 10 (ip @ f)) * pow10 (n - int (length f))))
           | _ \<Rightarrow> None)"

definition StrDecimalLiteral :: "string \<Rightarrow> js_num option" where
  "StrDecimalLiteral s =
     (case s of
        [] \<Rightarrow> None
      | c # t \<Rightarrow>
          if c = CHR ''+'' then StrUnsignedDecimalLiteral t
          else if c = CHR ''-'' then map_option num_neg (StrUnsignedDecimalLiteral t)
          else StrUnsignedDecimalLiteral s)"

definition StringToNumber :: "string \<Rightarrow> js_num" where
  "StringToNumber s =
     (let t = trim s
      in if t = [] then Fin 0
         else
           case NonDecimalIntegerLiteral t of
             Some n \<Rightarrow> round_double (of_int n)
           | None \<Rightarrow> (case StrDecimalLiteral t of Some v \<Rightarrow> v | None \<Rightarrow> NaN))"

section \<open>Hilbert curve: class GSfc4qLbl_Hilbert\<close>

text \<open>
  \<open>_rot(n, ij, rx, ry)\<close> mutates the array \<open>ij\<close>; the model returns the new pair. When
  \<open>ry == 0n\<close> and \<open>rx == 1n\<close> both entries are reflected, and whenever \<open>ry == 0n\<close> the
  entries are swapped (\<open>ij.push(ij.shift())\<close>).
\<close>

definition rot :: "int \<Rightarrow> int \<times> int \<Rightarrow> int \<Rightarrow> int \<Rightarrow> int \<times> int" where
  "rot n ij rx ry =
     (if ry = 0 then
        (let ij1 = (if rx = 1 then (n - 1 - fst ij, n - 1 - snd ij) else ij)
         in (snd ij1, fst ij1))
      else ij)"

text \<open>
  The loop of \<open>_bkey_decode\<close>: \<open>for (let s = 1n; s < nRefRows; s *= 2n)\<close>. The counter
  starts at \<open>1n\<close> and only doubles, so it is always positive; the guard \<open>0 < s\<close> records
  that. The coordinates are returned through \<open>Number(...)\<close>. A Number that holds an integer
  and the BigInt of the same value are the same \<open>int\<close> here; the instance method
  \<open>bkey_encode\<close> turns its Number arguments into BigInt before it calls \<open>_bkey_encode\<close>.
\<close>

function Hilbert_decode_loop :: "int \<Rightarrow> int \<Rightarrow> int \<Rightarrow> int \<times> int \<Rightarrow> int \<times> int" where
  "Hilbert_decode_loop nRefRows s t ij =
     (if 0 < s \<and> s < nRefRows then
        let rx = 1 AND (bigint_div t 2);
            ry = 1 AND (t XOR rx);
            ij1 = rot s ij rx ry;
            ij2 = (fst ij1 + s * rx, snd ij1 + s * ry)
        in Hilbert_decode_loop nRefRows (s * 2) (bigint_div t 4) ij2
      else ij)"
  by pat_completeness auto
termination
  by (relation "measure (\<lambda>(n, s, t, ij). nat (n - s))") auto

declare Hilbert_decode_loop.simps [simp del]

definition Hilbert__bkey_decode :: "int \<Rightarrow> int \<Rightarrow> int \<times> int" where
  "Hilbert__bkey_decode key nRefRows =
     (let ij = Hilbert_decode_loop nRefRows 1 key (0, 0)
      in (js_Number (fst ij), js_Number (snd ij)))"

text \<open>The loop of \<open>_bkey_encode\<close>: \<open>for (let s = nRefRows / 2n; s >= 1n; s /= 2n)\<close>.\<close>

function Hilbert_encode_loop :: "int \<Rightarrow> int \<Rightarrow> int \<times> int \<Rightarrow> int" where
  "Hilbert_encode_loop s key ij =
     (if 1 \<le> s then
        let rx = (if 0 < (fst ij AND s) then 1 else 0);
            ry = (if 0 < (snd ij AND s) then 1 else 0);
            key1 = key + s * s * ((3 * rx) XOR ry);
            ij1 = rot s ij rx ry
        in Hilbert_encode_loop (bigint_div s 2) key1 ij1
      else key)"
  by pat_completeness auto
termination
  by (relation "measure (\<lambda>(s, key, ij). nat s)") (auto simp: bigint_div_def)

declare Hilbert_encode_loop.simps [simp del]

definition Hilbert__bkey_encode :: "int \<Rightarrow> int \<Rightarrow> int \<Rightarrow> int" where
  "Hilbert__bkey_encode i j nRefRows =
     Hilbert_encode_loop (bigint_div nRefRows 2) 0 (i, j)"

subsection \<open>Auxiliary notions for the Hilbert proofs\<close>

text \<open>
  One iteration of the decoding loop, the two quadrant bits it reads, the quadrant bit the
  encoding loop reads, and both loops run on a grid of side \<open>2 ^ k\<close>.
\<close>

definition hstep :: "int \<Rightarrow> int \<Rightarrow> int \<times> int \<Rightarrow> int \<times> int" where
  "hstep s t ij = (let rx = 1 AND (bigint_div t 2); ry = 1 AND (t XOR rx); ij1 = rot s ij rx ry
     in (fst ij1 + s * rx, snd ij1 + s * ry))"

definition hrx :: "int \<Rightarrow> int" where "hrx t = 1 AND (bigint_div t 2)"

definition hry :: "int \<Rightarrow> int" where "hry t = 1 AND (t XOR hrx t)"

definition ebit :: "int \<Rightarrow> int \<Rightarrow> int" where
  "ebit x s = (if 0 < (x AND s) then 1 else 0)"

definition Ek :: "nat \<Rightarrow> int \<times> int \<Rightarrow> int" where
  "Ek k ij = Hilbert_encode_loop (bigint_div (2 ^ k) 2) 0 ij"

definition Dk :: "nat \<Rightarrow> int \<Rightarrow> int \<times> int" where
  "Dk k t = Hilbert_decode_loop (2 ^ k) 1 t (0, 0)"

section \<open>Morton curve: class GSfc4qLbl_Morton\<close>

text \<open>
  \<open>_bkey_interleave\<close> and \<open>deinterleave\<close> on BigInt: \<open><<\<close> is \<open>push_bit\<close>, \<open>>>\<close> is
  \<open>drop_bit\<close>, \<open>|\<close> is \<open>OR\<close> and \<open>&\<close> is \<open>AND\<close>; the masks are the source's hexadecimal
  constants.
\<close>

definition Morton__bkey_interleave :: "int \<Rightarrow> int" where
  "Morton__bkey_interleave x0 =
     (let x1 = (x0 OR push_bit 16 x0) AND 0x0000ffff0000ffff;
          x2 = (x1 OR push_bit 8 x1) AND 0x00ff00ff00ff00ff;
          x3 = (x2 OR push_bit 4 x2) AND 0x0f0f0f0f0f0f0f0f;
          x4 = (x3 OR push_bit 2 x3) AND 0x3333333333333333
      in (x4 OR push_bit 1 x4) AND 0x5555555555555555)"

definition Morton_deinterleave :: "int \<Rightarrow> int" where
  "Morton_deinterleave x0 =
     (let x1 = x0 AND 0x5555555555555555;
          x2 = (x1 OR drop_bit 1 x1) AND 0x3333333333333333;
          x3 = (x2 OR drop_bit 2 x2) AND 0x0f0f0f0f0f0f0f0f;
          x4 = (x3 OR drop_bit 4 x3) AND 0x00ff00ff00ff00ff;
          x5 = (x4 OR drop_bit 8 x4) AND 0x0000ffff0000ffff;
          x6 = (x5 OR drop_bit 16 x5) AND 0x00000000ffffffff
      in x6)"

text \<open>
  \<open>bkey_encode(x, y)\<close> first turns Number arguments into BigInt, which keeps an integer's
  value; \<open>bkey_decode(d)\<close> returns its two coordinates through \<open>Number(...)\<close>.
\<close>

definition Morton_bkey_encode :: "int \<Rightarrow> int \<Rightarrow> int" where
  "Morton_bkey_encode x y =
     (let x1 = Morton__bkey_interleave x; y1 = Morton__bkey_interleave y
      in x1 OR push_bit 1 y1)"

definition Morton_bkey_decode :: "int \<Rightarrow> int \<times> int" where
  "Morton_bkey_decode d =
     (js_Number (Morton_deinterleave d), js_Number (Morton_deinterleave (drop_bit 1 d)))"

subsection \<open>Auxiliary notions for the Morton proofs\<close>

text \<open>One line of \<open>_bkey_interleave\<close>, and one line of \<open>deinterleave\<close>.\<close>

definition spread_step :: "nat \<Rightarrow> int \<Rightarrow> int \<Rightarrow> int" where
  "spread_step k m x = (x OR push_bit k x) AND m"

definition collapse_step :: "nat \<Rightarrow> int \<Rightarrow> int \<Rightarrow> int" where
  "collapse_step k m x = (x OR drop_bit k x) AND m"

section \<open>The generalized curve: class GSfc4q\<close>

text \<open>
  Exceptions are values. \<open>RangeError\<close>, \<open>SyntaxError\<close>, \<open>TypeError\<close> and \<open>ReferenceError\<close>
  are the errors the JavaScript run-time raises; \<open>Error msg\<close> is \<open>throw new Error(msg)\<close> of
  the source; \<open>NonTermination\<close> stands for a loop that does not end.
\<close>

datatype js_error =
  RangeError | SyntaxError | TypeError | ReferenceError | Error string | NonTermination

text \<open>
  The values a caller can pass as \<open>level\<close>; nothing in \<open>refresh\<close> restricts them to Numbers,
  and the demonstration page passes the string of a form field. \<open>LObject s\<close> is an array or
  another object whose conversion to a primitive yields the string \<open>s\<close>: \<open>[]\<close> yields the
  empty string, \<open>[0]\<close> yields \<open>"0"\<close>.
\<close>

datatype js_level =
  LUndefined | LNull | LNumber js_num | LString string | LBoolean bool | LBigInt int | LSymbol
  | LObject string

text \<open>Truthiness, as \<open>||\<close> tests it.\<close>

definition ToBoolean :: "js_level \<Rightarrow> bool" where
  "ToBoolean v =
     (case v of
        LUndefined \<Rightarrow> False
      | LNull \<Rightarrow> False
      | LNumber n \<Rightarrow> n \<noteq> Fin 0 \<and> n \<noteq> NaN
      | LString s \<Rightarrow> s \<noteq> []
      | LBoolean b \<Rightarrow> b
      | LBigInt i \<Rightarrow> i \<noteq> 0
      | LSymbol \<Rightarrow> True
      | LObject s \<Rightarrow> True)"

text \<open>
  The conversion to a Number that \<open>Math.ceil\<close> applies to its argument, and \<open>!=\<close> to the
  operand it compares with a Number: a \<open>TypeError\<close> for a BigInt or a Symbol under
  \<open>Math.ceil\<close>.
\<close>

definition ToNumber :: "js_level \<Rightarrow> js_error + js_num" where
  "ToNumber v =
     (case v of
        LUndefined \<Rightarrow> Inr NaN
      | LNull \<Rightarrow> Inr (Fin 0)
      | LNumber n \<Rightarrow> Inr n
      | LString s \<Rightarrow> Inr (StringToNumber s)
      | LBoolean b \<Rightarrow> Inr (Fin (if b then 1 else 0))
      | LBigInt i \<Rightarrow> Inl TypeError
      | LSymbol \<Rightarrow> Inl TypeError
      | LObject s \<Rightarrow> Inr (StringToNumber s))"

text \<open>\<open>BigInt(x)\<close> on a Number: a \<open>RangeError\<close> unless \<open>x\<close> is an integer.\<close>

definition BigInt_of_Number :: "js_num \<Rightarrow> js_error + int" where
  "BigInt_of_Number x =
     (case x of
        Fin q \<Rightarrow> if of_int \<lfloor>q\<rfloor> = q then Inr \<lfloor>q\<rfloor> else Inl RangeError
      | PosInf \<Rightarrow> Inl RangeError
      | NegInf \<Rightarrow> Inl RangeError
      | NaN \<Rightarrow> Inl RangeError)"

text \<open>
  The fields \<open>refresh\<close> assigns, and the two the constructor sets afterwards. \<open>level\<close> is
  \<open>undefined\<close> on a fresh object, the value stored by the first line of \<open>refresh\<close> when
  \<open>Math.ceil\<close> throws, and a Number from the fourth line on; \<open>blevel\<close> is a Number. The other
  fields of a fresh object are \<open>undefined\<close> too, but are never read in that state.
\<close>

record GSfc4q =
  level :: js_level
  blevel :: js_num
  isHalf :: bool
  nKeys :: int
  nBKeys :: int
  keyBits :: nat
  bkeyBits :: nat
  nRefRows :: int
  needSwap :: bool
  halfIsOptimized :: bool

text \<open>
  Truthiness of an optional finite Number, as \<open>if (maxBits)\<close> tests it: \<open>undefined\<close>, \<open>null\<close>
  and \<open>0\<close> are falsy.
\<close>

definition truthy :: "rat option \<Rightarrow> bool" where
  "truthy v = (case v of None \<Rightarrow> False | Some x \<Rightarrow> x \<noteq> 0)"

text \<open>
  \<open>base ** e\<close> on BigInts, as the language defines it: a negative exponent raises a
  \<open>RangeError\<close>, and the power is computed otherwise. The language sets no bound on the size
  of a BigInt. An engine has one (a BigInt of about a million bits or more), and raises a
  \<open>RangeError\<close> of its own when a result exceeds it; this bound is not part of the model,
  which therefore says nothing reliable about a level whose grid constants do not fit the
  engine. The theorems below that state that a level is accepted are restricted to levels up
  to \<open>1024\<close>, where \<open>4 ^ blevel\<close> has at most 2049 bits.
\<close>

definition bigint_pow :: "int \<Rightarrow> int \<Rightarrow> js_error + int" where
  "bigint_pow b e = (if e < 0 then Inl RangeError else Inr (b ^ nat e))"

text \<open>
  \<open>refresh(level)\<close>. The assignments are made in the source's order and the error is
  returned together with the object as it is left: when \<open>Math.ceil\<close> throws, \<open>level\<close> is
  already overwritten, and when \<open>BigInt(this.blevel)\<close> or the first exponentiation throws,
  \<open>level\<close>, \<open>blevel\<close> and \<open>isHalf\<close> are. The comparison \<open>this.blevel != this.level\<close> converts
  the stored value to a Number once more, with the same result.
\<close>

definition refresh ::
  "js_level \<Rightarrow> 'a GSfc4q_scheme \<Rightarrow> (js_error \<times> 'a GSfc4q_scheme) + 'a GSfc4q_scheme" where
  "refresh lv this =
     (let l0 = (if ToBoolean lv then lv
                else if ToBoolean (level this) then level this else LNumber (Fin 1));
          this0 = this\<lparr>level := l0\<rparr>
      in case ToNumber l0 of
           Inl e \<Rightarrow> Inl (e, this0)
         | Inr x \<Rightarrow>
             (let b = Math_ceil x;
                  h = num_neq b x;
                  l1 = num_minus b (if h then 1 / 2 else 0);
                  this1 = this0\<lparr>level := LNumber l1, blevel := b, isHalf := h\<rparr>
              in case BigInt_of_Number b of
                   Inl e \<Rightarrow> Inl (e, this1)
                 | Inr bl \<Rightarrow>
                     (case bigint_pow 4 bl of
                        Inl e \<Rightarrow> Inl (e, this1)
                      | Inr n \<Rightarrow>
                          (let kb = length (bigint_toString2 (n - 1));
                               this2 = this1\<lparr>nKeys := n, nBKeys := n, keyBits := kb,
                                             bkeyBits := kb\<rparr>;
                               this3 = (if h then this2\<lparr>nKeys := bigint_div n 2,
                                                          keyBits := kb - 1\<rparr>
                                        else this2)
                           in (case bigint_pow 2 bl of
                                 Inl e \<Rightarrow> Inl (e, this3)
                               | Inr r \<Rightarrow> Inr (this3\<lparr>nRefRows := r\<rparr>))))))"

text \<open>
  \<open>new GSfc4q(level)\<close>: \<open>refresh\<close> on a fresh object, then the two default flags. The
  entries of \<open>GSfc4q_fresh\<close> other than \<open>level\<close> are placeholders for \<open>undefined\<close>;
  \<open>refresh\<close> overwrites each of them before anything reads it, and an exception leaves no
  object behind.
\<close>

definition GSfc4q_fresh :: GSfc4q where
  "GSfc4q_fresh =
     \<lparr>level = LUndefined, blevel = Fin 0, isHalf = False, nKeys = 0, nBKeys = 0, keyBits = 0,
      bkeyBits = 0, nRefRows = 0, needSwap = False, halfIsOptimized = False\<rparr>"

definition GSfc4q_new :: "js_level \<Rightarrow> js_error + GSfc4q" where
  "GSfc4q_new lv =
     (case refresh lv GSfc4q_fresh of
        Inl (e, this) \<Rightarrow> Inl e
      | Inr this \<Rightarrow> Inr (this\<lparr>needSwap := False, halfIsOptimized := False\<rparr>))"

text \<open>
  \<open>key_decode\<close> and \<open>key_encode\<close> call the methods \<open>bkey_decode\<close> and \<open>bkey_encode\<close> that the
  concrete curve class overrides; the model takes the overriding method as its first argument.
  \<open>BigInt(key)\<close> keeps an integer's value. The second component is \<open>None\<close> for \<open>null\<close>.
\<close>

definition key_decode :: "(int \<Rightarrow> 'c) \<Rightarrow> 'a GSfc4q_scheme \<Rightarrow> int \<Rightarrow> 'c \<times> 'c option" where
  "key_decode bkey_decode this key =
     (if isHalf this then
        let bkey = 2 * key; ij0 = bkey_decode bkey
        in (ij0, Some (bkey_decode (bkey + 1)))
      else (bkey_decode key, None))"

definition key_encode ::
  "(int \<Rightarrow> int \<Rightarrow> int) \<Rightarrow> 'a GSfc4q_scheme \<Rightarrow> int \<Rightarrow> int \<Rightarrow> int \<times> int option" where
  "key_encode bkey_encode this i j =
     (if isHalf this then
        let bkey1 = bkey_encode i j;
            key = drop_bit 1 bkey1;
            bkey1' = push_bit 1 key;
            bkey2 = bkey1' + 1
        in (bkey1', Some bkey2)
      else (bkey_encode i j, None))"

text \<open>The overriding methods of \<open>GSfc4qLbl_Hilbert\<close>, which read \<open>this.nRefRows\<close>.\<close>

definition Hilbert_bkey_decode :: "'a GSfc4q_scheme \<Rightarrow> int \<Rightarrow> int \<times> int" where
  "Hilbert_bkey_decode this bkey = Hilbert__bkey_decode bkey (nRefRows this)"

definition Hilbert_bkey_encode :: "'a GSfc4q_scheme \<Rightarrow> int \<Rightarrow> int \<Rightarrow> int" where
  "Hilbert_bkey_encode this i j = Hilbert__bkey_encode i j (nRefRows this)"

text \<open>
  The objects a caller can obtain with level arguments taken from a set \<open>A\<close>: one returned
  by the constructor, and any object after a further call of \<open>refresh\<close>, whether that call
  returned or threw. No other method of the classes assigns the grid fields.
\<close>

inductive_set GSfc4q_reachable :: "js_level set \<Rightarrow> GSfc4q set" for A :: "js_level set" where
  constructed: "lv \<in> A \<Longrightarrow> GSfc4q_new lv = Inr g \<Longrightarrow> g \<in> GSfc4q_reachable A"
| refreshed:
    "g \<in> GSfc4q_reachable A \<Longrightarrow> lv \<in> A \<Longrightarrow> refresh lv g = Inr g' \<Longrightarrow> g' \<in> GSfc4q_reachable A"
| refresh_threw:
    "g \<in> GSfc4q_reachable A \<Longrightarrow> lv \<in> A \<Longrightarrow> refresh lv g = Inl (e, g') \<Longrightarrow>
     g' \<in> GSfc4q_reachable A"

text \<open>The level arguments that are neither strings nor objects.\<close>

definition not_string_like :: "js_level \<Rightarrow> bool" where
  "not_string_like v = (case v of LString s \<Rightarrow> False | LObject s \<Rightarrow> False | _ \<Rightarrow> True)"

subsection \<open>Auxiliary notions for the proofs about \<open>refresh\<close>\<close>

text \<open>
  The value that the first line of \<open>refresh\<close> selects, and the object that \<open>refresh\<close> returns
  when this value converts to the finite Number \<open>q\<close>.
\<close>

definition level_used :: "js_level \<Rightarrow> 'a GSfc4q_scheme \<Rightarrow> js_level" where
  "level_used lv this =
     (if ToBoolean lv then lv else if ToBoolean (level this) then level this else LNumber (Fin 1))"

definition configured :: "rat \<Rightarrow> 'a GSfc4q_scheme \<Rightarrow> 'a GSfc4q_scheme" where
  "configured q this =
     (let b = \<lceil>q\<rceil>; h = (of_int b \<noteq> q); n = 4 ^ nat b; kb = length (bigint_toString2 (n - 1))
      in this\<lparr>level := LNumber (Fin (of_int b - (if h then 1 / 2 else 0))),
              blevel := Fin (of_int b), isHalf := h,
              nKeys := (if h then bigint_div n 2 else n), nBKeys := n,
              keyBits := (if h then kb - 1 else kb), bkeyBits := kb, nRefRows := 2 ^ nat b\<rparr>)"

section \<open>Sized integers: class SizedBigInt\<close>

subsection \<open>Strings and objects\<close>

text \<open>Decimal digits, as template literals print a non-negative integer.\<close>

function dec_digits :: "nat \<Rightarrow> string" where
  "dec_digits n =
     (if n < 10 then [char_of (48 + n)]
      else dec_digits (n div 10) @ [char_of (48 + n mod 10)])"
  by pat_completeness auto
termination
  by (relation "measure id") auto

declare dec_digits.simps [simp del]

definition bigint_toString10 :: "int \<Rightarrow> string" where
  "bigint_toString10 x =
     (if x < 0 then CHR ''-'' # dec_digits (nat (- x)) else dec_digits (nat x))"

text \<open>\<open>s.padStart(n, c)\<close>, \<open>s.charAt(i)\<close> and \<open>s.toLowerCase()\<close> (on ASCII letters).\<close>

definition padStart :: "nat \<Rightarrow> char \<Rightarrow> string \<Rightarrow> string" where
  "padStart n c s = replicate (n - length s) c @ s"

definition charAt :: "string \<Rightarrow> nat \<Rightarrow> string" where
  "charAt s i = (if i < length s then [s ! i] else [])"

definition toLowerCase :: "string \<Rightarrow> string" where
  "toLowerCase s =
     map (\<lambda>c. if 65 \<le> (of_char c :: nat) \<and> (of_char c :: nat) \<le> 90
              then char_of ((of_char c :: nat) + 32) else c) s"

text \<open>
  \<open>BigInt("0b" + s)\<close> and \<open>BigInt("0x" + s)\<close>. The conversion skips the white space at the
  two ends of its argument, which here begins with the prefix, so white space at the end of
  \<open>s\<close> is dropped; what is left must be a non-empty string of binary, resp. hexadecimal,
  digits, or a \<open>SyntaxError\<close> is raised.
\<close>

definition is_bit :: "char \<Rightarrow> bool" where
  "is_bit c = (c = CHR ''0'' \<or> c = CHR ''1'')"

definition BigInt_0b :: "string \<Rightarrow> js_error + int" where
  "BigInt_0b s =
     (let d = trim_end s
      in if d \<noteq> [] \<and> list_all is_bit d
         then Inr (foldl (\<lambda>a c. 2 * a + (if c = CHR ''1'' then 1 else 0)) 0 d)
         else Inl SyntaxError)"

definition BigInt_0x :: "string \<Rightarrow> js_error + int" where
  "BigInt_0x s =
     (let d = trim_end s
      in if d \<noteq> [] \<and> list_all (\<lambda>c. hex_value c \<noteq> None) d
         then Inr (foldl (\<lambda>a c. 16 * a + int (the (hex_value c))) 0 d)
         else Inl SyntaxError)"

text \<open>
  A JavaScript object used as a dictionary is an association list: \<open>obj[k]\<close> is \<open>map_of\<close>,
  and \<open>obj[k] = v\<close> replaces the entry of \<open>k\<close> or appends a new one.
\<close>

fun obj_set :: "string \<Rightarrow> 'v \<Rightarrow> (string \<times> 'v) list \<Rightarrow> (string \<times> 'v) list" where
  "obj_set k v [] = [(k, v)]"
| "obj_set k v ((k', v') # xs) = (if k' = k then (k, v) # xs else (k', v') # obj_set k v xs)"

text \<open>
  \<open>objSwap(obj)\<close> builds \<open>{value: key}\<close> entry by entry, a later entry overwriting an earlier
  one with the same value. (JavaScript enumerates integer-like keys before the others; the
  list order is the insertion order. The two differ in their result only when two keys have
  the same value, which no translation table has.)
\<close>

definition objSwap :: "(string \<times> string) list \<Rightarrow> (string \<times> string) list" where
  "objSwap obj = fold (\<lambda>(k, v) acc. obj_set v k acc) obj []"

subsection \<open>The registry of bases\<close>

text \<open>
  An entry of \<open>kx_baseLabel\<close> after \<open>kx_baseLabel_setRules\<close>: a base record, or
  \<open>{isAlias: label}\<close>. The regular expressions and the \<open>case\<close> and \<open>ref\<close> entries are left
  out: no method reads them.
\<close>

record baseLabel_rec =
  base :: nat
  alphabet :: string
  bitsPerDigit :: nat
  isHierar :: bool
  isDefault :: bool
  label :: string

datatype kx_entry = Rec baseLabel_rec | Alias string

text \<open>
  The two class-level caches: \<open>SizedBigInt.kx_baseLabel\<close> and \<open>SizedBigInt.kx_tr\<close>. Before
  the first constructor call both are \<open>undefined\<close>; that state is \<open>None\<close> where the
  constructor takes the caches, and every method of an instance works on defined caches.
\<close>

record kx_state =
  kx_baseLabel :: "(string \<times> kx_entry) list"
  kx_tr :: "(string \<times> (string \<times> string) list) list"

text \<open>
  The literal of \<open>kx_RefreshDefaults\<close>: label, \<open>base\<close> when given, \<open>alphabet\<close>, \<open>isDefault\<close>
  and \<open>isHierar\<close> (an absent flag is \<open>false\<close>).
\<close>

definition kx_catalogue :: "(string \<times> nat option \<times> string \<times> bool \<times> bool) list" where
  "kx_catalogue =
     [(''2'', Some 2, ''01'', False, False),
      (''2h'', Some 2, ''01'', True, True),
      (''4h'', Some 4, ''0123GQ'', False, True),
      (''8h'', Some 8, ''01234567GHMQRV'', False, True),
      (''16h'', Some 16, ''0123456789abcdefGHJKMNPQRSTVZY'', False, True),
      (''4js'', None, ''0123'', True, False),
      (''8js'', None, ''01234567'', True, False),
      (''16js'', None, ''0123456789abcdef'', True, False),
      (''32hex'', None, ''0123456789abcdefghijklmnopqrstuv'', True, False),
      (''32nvu'', None, ''0123456789BCDFGHJKLMNPQRSTUVWXYZ'', False, False),
      (''32rfc'', None, ''ABCDEFGHIJKLMNOPQRSTUVWXYZ234567'', False, False),
      (''32ghs'', None, ''0123456789bcdefghjkmnpqrstuvwxyz'', False, False),
      (''64url'', None,
         ''ABCDEFGHIJKLMNOPQRSTUVWXYZabcdefghijklmnopqrstuvwxyz0123456789-_'', True, False)]"

text \<open>\<open>Math.log2\<close> of a base; exact on the powers of two, which is all the catalogue has.\<close>

function Math_log2 :: "nat \<Rightarrow> nat" where
  "Math_log2 n = (if n < 2 then 0 else Suc (Math_log2 (n div 2)))"
  by pat_completeness auto
termination
  by (relation "measure id") auto

declare Math_log2.simps [simp del]

text \<open>
  One round of the loop of \<open>kx_baseLabel_setRules\<close>, for the entry of label \<open>i\<close>: it fills in
  \<open>base\<close>, \<open>bitsPerDigit\<close> and \<open>label\<close>, and registers \<open>String(base)\<close> as an alias of a
  default entry. The second \<open>throw\<close> interpolates the unbound name \<open>baseLabel\<close> and so raises
  a \<open>ReferenceError\<close>. The comparison \<open>i != r.base\<close> of a label with a number holds unless
  the label is the number's numeral.
\<close>

definition setRules_entry ::
  "string \<times> nat option \<times> string \<times> bool \<times> bool \<Rightarrow> (string \<times> kx_entry) list
     \<Rightarrow> js_error + (string \<times> kx_entry) list" where
  "setRules_entry e reg =
     (case e of (i, b0, alpha, dflt, hier) \<Rightarrow>
        let b = (case b0 of None \<Rightarrow> length alpha | Some n \<Rightarrow> if n = 0 then length alpha else n);
            bpd = Math_log2 b
        in if alpha = [] then Inl (Error ''err2, invalid null alphabet'')
           else if hier \<and> length alpha < b * 2 - 2 then Inl ReferenceError
           else
             let r = \<lparr>base = b, alphabet = alpha, bitsPerDigit = bpd, isHierar = hier,
                      isDefault = dflt, label = i\<rparr>;
                 reg1 = obj_set i (Rec r) reg
             in Inr (if dflt \<and> i \<noteq> dec_digits b then obj_set (dec_digits b) (Alias i) reg1
                     else reg1))"

fun kx_baseLabel_setRules ::
  "(string \<times> nat option \<times> string \<times> bool \<times> bool) list \<Rightarrow> (string \<times> kx_entry) list
     \<Rightarrow> js_error + (string \<times> kx_entry) list" where
  "kx_baseLabel_setRules [] reg = Inr reg"
| "kx_baseLabel_setRules (e # es) reg =
     (case setRules_entry e reg of
        Inl err \<Rightarrow> Inl err
      | Inr reg1 \<Rightarrow> kx_baseLabel_setRules es reg1)"

text \<open>\<open>kx_RefreshDefaults()\<close>: builds both caches once.\<close>

definition kx_RefreshDefaults :: "kx_state option \<Rightarrow> js_error + kx_state" where
  "kx_RefreshDefaults g =
     (case g of
        Some s \<Rightarrow> Inr s
      | None \<Rightarrow>
          (case kx_baseLabel_setRules kx_catalogue [] of
             Inl err \<Rightarrow> Inl err
           | Inr reg \<Rightarrow> Inr \<lparr>kx_baseLabel = reg, kx_tr = []\<rparr>))"

text \<open>
  \<open>baseLabel(label, false)\<close> returns a reference to the registry's record; the model returns
  the key under which the record is stored together with the record. \<open>None\<close> is a missing
  or falsy label. A numeric label is given by its numeral.
\<close>

definition baseLabel :: "string option \<Rightarrow> kx_state \<Rightarrow> js_error + string \<times> baseLabel_rec" where
  "baseLabel lbl s =
     (let l0 = (case lbl of None \<Rightarrow> ''2'' | Some l \<Rightarrow> if l = [] then ''2'' else l);
          l1 = toLowerCase l0;
          l2 = (if take 3 l1 = ''base'' then drop 3 l1 else l1)
      in case map_of (kx_baseLabel s) l2 of
           None \<Rightarrow> Inl (Error (''label '' @ [CHR 0x22] @ l2 @ [CHR 0x22] @ '' not exists, must be registered''))
         | Some (Rec r) \<Rightarrow> Inr (l2, r)
         | Some (Alias a) \<Rightarrow>
             (case map_of (kx_baseLabel s) a of
                Some (Rec r) \<Rightarrow> Inr (a, r)
              | Some (Alias a') \<Rightarrow> Inl TypeError
              | None \<Rightarrow> Inl TypeError))"

text \<open>The short codes of a hierarchical base, in the order of \<open>ordList\<close>.\<close>

definition ordList :: "nat \<Rightarrow> string list" where
  "ordList b =
     (if b = 4 then [''0'', ''1'']
      else if b = 8 then [''0'', ''00'', ''01'', ''1'', ''10'', ''11'']
      else [''0'', ''00'', ''000'', ''001'', ''01'', ''010'', ''011'',
            ''1'', ''10'', ''100'', ''101'', ''11'', ''110'', ''111''])"

text \<open>
  \<open>kx_trConfig(baseLabel)\<close>: builds the two translation tables of a base (the argument is
  \<open>bLabel\<close> here).
\<close>

definition kx_trConfig :: "string \<Rightarrow> kx_state \<Rightarrow> js_error + kx_state" where
  "kx_trConfig bLabel s =
     (case map_of (kx_baseLabel s) bLabel of
        None \<Rightarrow> Inl (Error (''label '' @ [CHR 0x22] @ bLabel @ [CHR 0x22] @ '' not exists or is alias''))
      | Some (Alias a) \<Rightarrow> Inl (Error (''label '' @ [CHR 0x22] @ bLabel @ [CHR 0x22] @ '' not exists or is alias''))
      | Some (Rec r) \<Rightarrow>
          if base r = 2 then Inr s
          else if 64 < base r then Inl (Error (''Base-'' @ dec_digits (base r) @ '' is invalid''))
          else
            let lbl = label r @ ''-to-2'';
                t0 = (case map_of (kx_tr s) lbl of None \<Rightarrow> [] | Some t \<Rightarrow> t);
                t1 = fold (\<lambda>i t. obj_set (charAt (alphabet r) i)
                              (padStart (bitsPerDigit r) CHR ''0'' (bin_digits i)) t)
                       [0..<base r] t0;
                t2 = (if isHierar r then
                        fold (\<lambda>i t. obj_set (charAt (alphabet r) (base r + i))
                                (ordList (base r) ! i) t)
                          [0..<length (ordList (base r))] t1
                      else t1);
                tr1 = obj_set lbl t2 (kx_tr s);
                tr2 = obj_set (''2-to-'' @ label r) (objSwap t2) tr1
            in Inr (s\<lparr>kx_tr := tr2\<rparr>))"

subsection \<open>Instances\<close>

text \<open>An instance: \<open>val\<close> (a BigInt or \<open>null\<close>) and \<open>bits\<close>.\<close>

record SizedBigInt =
  val :: "int option"
  bits :: nat

definition fromNull :: "SizedBigInt \<Rightarrow> SizedBigInt" where
  "fromNull this = this\<lparr>val := None, bits := 0\<rparr>"

text \<open>
  \<open>setBits_byMax(maxBits, inputLen, onErr_cutLSD = true)\<close> assigns \<open>this.bits\<close> and returns
  \<open>[cutByMax, maxBits]\<close>. An optional parameter left out by the caller is \<open>None\<close>, and the
  default of the signature is then taken. A thrown error ends the call; the half-assigned
  instance is not returned.
\<close>

definition setBits_byMax ::
  "rat option \<Rightarrow> nat \<Rightarrow> bool option \<Rightarrow> SizedBigInt \<Rightarrow> js_error + SizedBigInt \<times> bool \<times> nat" where
  "setBits_byMax maxBits inputLen onErr_cutLSD this =
     (let cutLSD = (case onErr_cutLSD of None \<Rightarrow> True | Some c \<Rightarrow> c);
          this1 = this\<lparr>bits := inputLen\<rparr>
      in if truthy maxBits then
           let forceBits0 = (if the maxBits < 0 then 0 else 1 :: nat);
               maxBits1 = nat \<lceil>\<bar>the maxBits\<bar>\<rceil>;
               forceBits = (if forceBits0 \<noteq> 0 then maxBits1 else forceBits0)
           in if maxBits1 < inputLen then
                (if cutLSD then Inr (this1\<lparr>bits := maxBits1\<rparr>, True, maxBits1)
                 else Inl (Error (''ERR4. Bit-length '' @ dec_digits inputLen @
                                   '' exceeded the limit '' @ dec_digits maxBits1)))
              else if inputLen < forceBits then Inr (this1\<lparr>bits := forceBits\<rparr>, False, maxBits1)
              else Inr (this1, False, maxBits1)
         else Inr (this1, False, 0))"

text \<open>\<open>fromBitString(strval, maxBits = null, onErr_cutLSD = true)\<close>.\<close>

definition fromBitString ::
  "string \<Rightarrow> rat option \<Rightarrow> bool option \<Rightarrow> SizedBigInt \<Rightarrow> js_error + SizedBigInt" where
  "fromBitString strval maxBits onErr_cutLSD this =
     (if strval = [] then Inr (fromNull this)
      else
        case setBits_byMax maxBits (length strval)
               (Some (case onErr_cutLSD of None \<Rightarrow> True | Some c \<Rightarrow> c)) this of
          Inl e \<Rightarrow> Inl e
        | Inr (this1, cutByMax, maxBits1) \<Rightarrow>
            (case BigInt_0b (if cutByMax then take maxBits1 strval else strval) of
               Inl e \<Rightarrow> Inl e
             | Inr v \<Rightarrow> Inr (this1\<lparr>val := Some v\<rparr>)))"

text \<open>
  The values the input methods tell apart by \<open>typeof\<close>: \<open>null\<close> or \<open>undefined\<close>, a string, a
  BigInt, a Number, and an object with entries \<open>val\<close> and \<open>bits\<close>.
\<close>

datatype js_val = Null | Str string | Big int | Num js_num | Obj "int option" nat

text \<open>
  \<open>fromInt(val, maxBits = 0, onErr_cutLSD = true)\<close>. A Number goes through \<open>val >>> 0\<close>, the
  conversion to an unsigned 32-bit integer. An object has \<open>typeof\<close> \<open>'object'\<close>, which the
  test \<open>t == 'bigint' || isNum\<close> sends to \<open>fromNull\<close> with everything else.
\<close>

definition fromInt ::
  "js_val \<Rightarrow> rat option \<Rightarrow> bool option \<Rightarrow> SizedBigInt \<Rightarrow> js_error + SizedBigInt" where
  "fromInt v maxBits onErr_cutLSD this =
     (let set_val = (\<lambda>x.
            let this1 = this\<lparr>val := Some x\<rparr>;
                len = length (bigint_toString2 x)
            in case setBits_byMax maxBits len
                      (Some (case onErr_cutLSD of None \<Rightarrow> True | Some c \<Rightarrow> c)) this1 of
                 Inl e \<Rightarrow> Inl e
               | Inr (this2, cutByMax, maxBits1) \<Rightarrow>
                   Inr (if cutByMax then this2\<lparr>val := Some (drop_bit (len - bits this2) x)\<rparr>
                        else this2))
      in case v of
           Big x \<Rightarrow> set_val x
         | Num n \<Rightarrow> set_val (ToUint32 n)
         | Null \<Rightarrow> Inr (fromNull this)
         | Str s \<Rightarrow> Inr (fromNull this)
         | Obj x b \<Rightarrow> Inr (fromNull this))"

text \<open>\<open>fromHexString(strval, maxBits = 0, onErr_cutLSD = true)\<close>.\<close>

definition fromHexString ::
  "string \<Rightarrow> rat option \<Rightarrow> bool option \<Rightarrow> SizedBigInt \<Rightarrow> js_error + SizedBigInt" where
  "fromHexString strval maxBits onErr_cutLSD this =
     (if strval = [] then Inr (fromNull this)
      else
        case BigInt_0x strval of
          Inl e \<Rightarrow> Inl e
        | Inr v \<Rightarrow>
            fromInt (Obj (Some v) (length strval * 4)) maxBits
              (Some (case onErr_cutLSD of None \<Rightarrow> True | Some c \<Rightarrow> c)) this)"

text \<open>
  \<open>fromString(strval, radix = 4, maxBits = null, onErr_cutLSD = true)\<close>. The condition of the
  second branch, \<open>r.label='16js'\<close>, is an assignment: it overwrites the label of the
  registry's record and is truthy, so every base other than 2 is read by \<open>fromHexString\<close>, and
  the table-driven code after that \<open>return\<close> is never reached. The methods that work on the
  caches return them, also with an error.
\<close>

definition fromString ::
  "string \<Rightarrow> string option \<Rightarrow> rat option \<Rightarrow> bool option \<Rightarrow> SizedBigInt \<Rightarrow> kx_state
     \<Rightarrow> js_error \<times> kx_state + kx_state \<times> SizedBigInt" where
  "fromString strval radix maxBits onErr_cutLSD this s =
     (case baseLabel (Some (case radix of None \<Rightarrow> ''4'' | Some r \<Rightarrow> r)) s of
        Inl e \<Rightarrow> Inl (e, s)
      | Inr (k, r) \<Rightarrow>
          if strval = [] then Inr (s, fromNull this)
          else if base r = 2 then
            (case fromBitString strval maxBits onErr_cutLSD this of
               Inl e \<Rightarrow> Inl (e, s)
             | Inr this1 \<Rightarrow> Inr (s, this1))
          else
            let s1 = s\<lparr>kx_baseLabel := obj_set k (Rec (r\<lparr>label := ''16js''\<rparr>)) (kx_baseLabel s)\<rparr>
            in (case fromHexString strval maxBits onErr_cutLSD this of
                  Inl e \<Rightarrow> Inl (e, s1)
                | Inr this1 \<Rightarrow> Inr (s1, this1)))"

text \<open>
  \<open>fromAny(val, radix = null, maxBits = null, onErr_cutLSD = true)\<close>. Its argument is a plain
  value, a \<open>SizedBigInt\<close> instance, or an array or object giving \<open>val\<close>, \<open>radix\<close> and
  \<open>maxBits\<close>.
\<close>

datatype sbi_arg = Val js_val | Inst SizedBigInt | Triple js_val "string option" "rat option"

definition fromAny ::
  "sbi_arg \<Rightarrow> string option \<Rightarrow> rat option \<Rightarrow> bool option \<Rightarrow> SizedBigInt \<Rightarrow> kx_state
     \<Rightarrow> js_error \<times> kx_state + kx_state \<times> SizedBigInt" where
  "fromAny a radix maxBits onErr_cutLSD this s =
     (let (v, radix1, maxBits1) =
            (case a of
               Val (Obj x b) \<Rightarrow> ((case x of None \<Rightarrow> Null | Some y \<Rightarrow> Big y), None, None)
             | Val w \<Rightarrow> (w, radix, maxBits)
             | Inst x \<Rightarrow>
                 ((case val x of None \<Rightarrow> Null | Some y \<Rightarrow> Big y), None, Some (of_nat (bits x)))
             | Triple w r m \<Rightarrow> (w, r, m));
          cutLSD = Some (case onErr_cutLSD of None \<Rightarrow> True | Some c \<Rightarrow> c)
      in case v of
           Str str \<Rightarrow>
             fromString str
               (Some (case radix1 of None \<Rightarrow> ''4'' | Some r \<Rightarrow> if r = [] then ''4'' else r))
               maxBits1 cutLSD this s
         | w \<Rightarrow>
             (case fromInt w maxBits1 cutLSD this of
                Inl e \<Rightarrow> Inl (e, s)
              | Inr this1 \<Rightarrow> Inr (s, this1)))"

text \<open>
  \<open>new SizedBigInt(val, radix, maxBits = null, onErr_cutLSD = true)\<close>. The entries of a fresh
  instance are placeholders for \<open>undefined\<close>; every path of \<open>fromAny\<close> assigns both.
\<close>

definition SizedBigInt_new ::
  "sbi_arg \<Rightarrow> string option \<Rightarrow> rat option \<Rightarrow> bool option \<Rightarrow> kx_state option
     \<Rightarrow> js_error \<times> kx_state option + kx_state \<times> SizedBigInt" where
  "SizedBigInt_new a radix maxBits onErr_cutLSD g =
     (case kx_RefreshDefaults g of
        Inl e \<Rightarrow> Inl (e, g)
      | Inr s \<Rightarrow>
          (case fromAny a radix maxBits onErr_cutLSD \<lparr>val = None, bits = 0\<rparr> s of
             Inl (e, s1) \<Rightarrow> Inl (e, Some s1)
           | Inr r \<Rightarrow> Inr r))"

text \<open>\<open>toBitString()\<close>.\<close>

definition toBitString :: "SizedBigInt \<Rightarrow> string" where
  "toBitString this =
     (case val this of None \<Rightarrow> [] | Some v \<Rightarrow> padStart (bits this) CHR ''0'' (bigint_toString2 v))"

text \<open>
  The loop of \<open>toString\<close>: \<open>for (let i=0; i<b.length; i+=rTo.bitsPerDigit) r += tr[...]\<close>. A
  chunk that the table does not have is \<open>undefined\<close>, which \<open>+=\<close> appends as the word
  \<open>undefined\<close>. With \<open>bitsPerDigit = 0\<close> the loop would not end; the result is \<open>None\<close> then.
\<close>

definition tr_get :: "(string \<times> string) list \<Rightarrow> string \<Rightarrow> string" where
  "tr_get tr k = (case map_of tr k of None \<Rightarrow> ''undefined'' | Some c \<Rightarrow> c)"

partial_function (option) toString_loop ::
  "(string \<times> string) list \<Rightarrow> nat \<Rightarrow> string \<Rightarrow> nat \<Rightarrow> string \<Rightarrow> string option" where
  "toString_loop tr bpd b i r =
     (if i < length b then toString_loop tr bpd b (i + bpd) (r @ tr_get tr (take bpd (drop i b)))
      else Some r)"

declare toString_loop.simps [code]

text \<open>
  \<open>toString(radix)\<close>; without a radix it prints \<open>[bits,val]\<close>. \<open>NonTermination\<close> stands for
  the loop that does not end.
\<close>

definition toString ::
  "string option \<Rightarrow> SizedBigInt \<Rightarrow> kx_state \<Rightarrow> js_error \<times> kx_state + kx_state \<times> string" where
  "toString radix this s =
     (case radix of
        None \<Rightarrow>
          Inr (s, ''['' @ dec_digits (bits this) @ '','' @
                  (case val this of None \<Rightarrow> ''null'' | Some v \<Rightarrow> bigint_toString10 v) @ '']'')
      | Some rd \<Rightarrow>
          (case baseLabel (Some rd) s of
             Inl e \<Rightarrow> Inl (e, s)
           | Inr (k, rTo) \<Rightarrow>
               if val this = None then Inr (s, [])
               else if base rTo = 2 then Inr (s, toBitString this)
               else
                 (case (case map_of (kx_tr s) (''2-to-'' @ label rTo) of
                          None \<Rightarrow> kx_trConfig (label rTo) s
                        | Some t \<Rightarrow> Inr s) of
                    Inl e \<Rightarrow> Inl (e, s)
                  | Inr s1 \<Rightarrow>
                      (case map_of (kx_tr s1) (''2-to-'' @ label rTo) of
                         None \<Rightarrow> Inl (TypeError, s1)
                       | Some tr \<Rightarrow>
                           (case toString_loop tr (bitsPerDigit rTo) (toBitString this) 0 [] of
                              None \<Rightarrow> Inl (NonTermination, s1)
                            | Some r \<Rightarrow> Inr (s1, r))))))"

section \<open>Labelled curves: class GSfc4qLbl\<close>

text \<open>
  The fields \<open>GSfc4qLbl\<close> and its two subclasses add to those of \<open>GSfc4q\<close>. The field
  \<open>this.base\<close> is \<open>base_label\<close> here (\<open>None\<close> for \<open>null\<close>); \<open>id0\<close> and \<open>id0_maxBits\<close> are
  \<open>None\<close> while \<open>undefined\<close> or \<open>null\<close>.
\<close>

record GSfc4qLbl = GSfc4q +
  base_label :: "string option"
  sbiID :: SizedBigInt
  id0 :: "int option"
  id0_maxBits :: "nat option"
  curveName :: string

text \<open>
  \<open>lblRefresh(base, id0, id0_maxBits)\<close> called without a grid identifier (\<open>id0\<close> and
  \<open>id0_maxBits\<close> \<open>undefined\<close>), which is all the constructors below need: the base label is
  normalised and its tables are built, a temporary \<open>SizedBigInt\<close> is constructed from
  \<open>undefined\<close>, and nothing is stored for \<open>id0\<close>.
\<close>

definition lblRefresh ::
  "string option \<Rightarrow> GSfc4qLbl \<Rightarrow> kx_state \<Rightarrow> js_error \<times> kx_state + kx_state \<times> GSfc4qLbl" where
  "lblRefresh b this s =
     (case (if (case b of None \<Rightarrow> False | Some l \<Rightarrow> l \<noteq> []) \<or>
               (case base_label this of None \<Rightarrow> True | Some l \<Rightarrow> l = [])
            then
              (case baseLabel (Some (case b of None \<Rightarrow> ''4h''
                                     | Some l \<Rightarrow> if l = [] then ''4h'' else l)) s of
                 Inl e \<Rightarrow> Inl (e, s)
               | Inr (k, r) \<Rightarrow>
                   if Some (label r) \<noteq> base_label this then
                     (case kx_trConfig (label r) s of
                        Inl e \<Rightarrow> Inl (e, s)
                      | Inr s1 \<Rightarrow> Inr (s1, this\<lparr>base_label := Some (label r)\<rparr>))
                   else Inr (s, this))
            else Inr (s, this)) of
        Inl e \<Rightarrow> Inl e
      | Inr (s1, this1) \<Rightarrow>
          (case SizedBigInt_new (Val Null) (base_label this1) None (Some True) (Some s1) of
             Inl (e, g) \<Rightarrow> Inl (e, s1)
           | Inr (s2, id0_tmp) \<Rightarrow> Inr (s2, this1)))"

text \<open>
  \<open>new GSfc4qLbl(level, base)\<close>: \<open>super(level)\<close>, then \<open>this.base = null\<close>,
  \<open>this.sbiID = new SizedBigInt()\<close> and \<open>lblRefresh\<close>. The first argument \<open>g\<close> is the state
  of the class-level caches before the call.
\<close>

definition GSfc4qLbl_new ::
  "js_level \<Rightarrow> string option \<Rightarrow> kx_state option
     \<Rightarrow> js_error \<times> kx_state option + kx_state \<times> GSfc4qLbl" where
  "GSfc4qLbl_new lv b g =
     (case GSfc4q_new lv of
        Inl e \<Rightarrow> Inl (e, g)
      | Inr grid \<Rightarrow>
          (case SizedBigInt_new (Val Null) None None None g of
             Inl r \<Rightarrow> Inl r
           | Inr (s, sbi) \<Rightarrow>
               (case lblRefresh b
                       (GSfc4q.extend grid
                          \<lparr>base_label = None, sbiID = sbi, id0 = None, id0_maxBits = None,
                           curveName = []\<rparr>) s of
                  Inl (e, s1) \<Rightarrow> Inl (e, Some s1)
                | Inr r \<Rightarrow> Inr r)))"

definition GSfc4qLbl_Morton_new ::
  "js_level \<Rightarrow> string option \<Rightarrow> kx_state option
     \<Rightarrow> js_error \<times> kx_state option + kx_state \<times> GSfc4qLbl" where
  "GSfc4qLbl_Morton_new lv b g =
     (case GSfc4qLbl_new lv b g of
        Inl r \<Rightarrow> Inl r
      | Inr (s, this) \<Rightarrow> Inr (s, this\<lparr>curveName := ''Morton''\<rparr>))"

definition GSfc4qLbl_Hilbert_new ::
  "js_level \<Rightarrow> string option \<Rightarrow> kx_state option
     \<Rightarrow> js_error \<times> kx_state option + kx_state \<times> GSfc4qLbl" where
  "GSfc4qLbl_Hilbert_new lv b g =
     (case GSfc4qLbl_new lv b g of
        Inl r \<Rightarrow> Inl r
      | Inr (s, this) \<Rightarrow>
          Inr (s, this\<lparr>curveName := ''Hilbert'', needSwap := True, halfIsOptimized := False\<rparr>))"

text \<open>\<open>setKey(key, onErr_cutLSD = true)\<close> fills \<open>this.sbiID\<close> and returns \<open>this\<close>.\<close>

definition setKey ::
  "sbi_arg \<Rightarrow> bool option \<Rightarrow> GSfc4qLbl \<Rightarrow> kx_state \<Rightarrow> js_error \<times> kx_state + kx_state \<times> GSfc4qLbl" where
  "setKey key onErr_cutLSD this s =
     (case fromAny key (base_label this) (Some (of_nat (keyBits this)))
             (Some (case onErr_cutLSD of None \<Rightarrow> True | Some c \<Rightarrow> c)) (sbiID this) s of
        Inl r \<Rightarrow> Inl r
      | Inr (s1, sbi) \<Rightarrow> Inr (s1, this\<lparr>sbiID := sbi\<rparr>))"

text \<open>
  \<open>setBkey_byIJ(i, j)\<close> with two Numbers. The first argument is the class's \<open>bkey_encode\<close>
  method, which \<open>key_encode\<close> calls.
\<close>

definition setBkey_byIJ ::
  "(GSfc4qLbl \<Rightarrow> int \<Rightarrow> int \<Rightarrow> int) \<Rightarrow> int \<Rightarrow> int \<Rightarrow> GSfc4qLbl \<Rightarrow> kx_state
     \<Rightarrow> js_error \<times> kx_state + kx_state \<times> GSfc4qLbl" where
  "setBkey_byIJ bkey_encode i j this s =
     (let max_ij = js_Number (nRefRows this) - 1
      in if max_ij < i \<or> max_ij < j then Inr (s, this)
         else
           let bkey = fst (key_encode (bkey_encode this) this i j)
           in setKey (Val (Big (if isHalf this then bigint_div bkey 2 else bkey))) None this s)"

subsection \<open>Auxiliary notions for the proofs about sized integers\<close>

text \<open>The caches as the first constructor call builds them.\<close>

definition kx_initial :: kx_state where
  "kx_initial =
     \<lparr>kx_baseLabel =
        [(''2'', Alias ''2h''),
         (''2h'', Rec \<lparr>base = 2, alphabet = ''01'', bitsPerDigit = 1, isHierar = True,
                       isDefault = True, label = ''2h''\<rparr>),
         (''4h'', Rec \<lparr>base = 4, alphabet = ''0123GQ'', bitsPerDigit = 2, isHierar = True,
                       isDefault = False, label = ''4h''\<rparr>),
         (''8h'', Rec \<lparr>base = 8, alphabet = ''01234567GHMQRV'', bitsPerDigit = 3,
                       isHierar = True, isDefault = False, label = ''8h''\<rparr>),
         (''16h'', Rec \<lparr>base = 16, alphabet = ''0123456789abcdefGHJKMNPQRSTVZY'',
                        bitsPerDigit = 4, isHierar = True, isDefault = False,
                        label = ''16h''\<rparr>),
         (''4js'', Rec \<lparr>base = 4, alphabet = ''0123'', bitsPerDigit = 2, isHierar = False,
                        isDefault = True, label = ''4js''\<rparr>),
         (''4'', Alias ''4js''),
         (''8js'', Rec \<lparr>base = 8, alphabet = ''01234567'', bitsPerDigit = 3,
                        isHierar = False, isDefault = True, label = ''8js''\<rparr>),
         (''8'', Alias ''8js''),
         (''16js'', Rec \<lparr>base = 16, alphabet = ''0123456789abcdef'', bitsPerDigit = 4,
                         isHierar = False, isDefault = True, label = ''16js''\<rparr>),
         (''16'', Alias ''16js''),
         (''32hex'', Rec \<lparr>base = 32, alphabet = ''0123456789abcdefghijklmnopqrstuv'',
                          bitsPerDigit = 5, isHierar = False, isDefault = True,
                          label = ''32hex''\<rparr>),
         (''32'', Alias ''32hex''),
         (''32nvu'', Rec \<lparr>base = 32, alphabet = ''0123456789BCDFGHJKLMNPQRSTUVWXYZ'',
                          bitsPerDigit = 5, isHierar = False, isDefault = False,
                          label = ''32nvu''\<rparr>),
         (''32rfc'', Rec \<lparr>base = 32, alphabet = ''ABCDEFGHIJKLMNOPQRSTUVWXYZ234567'',
                          bitsPerDigit = 5, isHierar = False, isDefault = False,
                          label = ''32rfc''\<rparr>),
         (''32ghs'', Rec \<lparr>base = 32, alphabet = ''0123456789bcdefghjkmnpqrstuvwxyz'',
                          bitsPerDigit = 5, isHierar = False, isDefault = False,
                          label = ''32ghs''\<rparr>),
         (''64url'', Rec \<lparr>base = 64,
                          alphabet =
                            ''ABCDEFGHIJKLMNOPQRSTUVWXYZabcdefghijklmnopqrstuvwxyz0123456789-_'',
                          bitsPerDigit = 6, isHierar = False, isDefault = True,
                          label = ''64url''\<rparr>),
         (''64'', Alias ''64url'')],
      kx_tr = []\<rparr>"

text \<open>
  The rendering of claim C3: an instance (fresh from \<open>new SizedBigInt()\<close>) filled by
  \<open>fromBitString(b)\<close> and printed by \<open>toString(radix)\<close>.
\<close>

definition render_bits ::
  "string \<Rightarrow> string \<Rightarrow> kx_state \<Rightarrow> js_error \<times> kx_state + kx_state \<times> string" where
  "render_bits radix b s =
     (case fromBitString b None None \<lparr>val = None, bits = 0\<rparr> of
        Inl e \<Rightarrow> Inl (e, s)
      | Inr x \<Rightarrow> toString (Some radix) x s)"

text \<open>The value of a bit string, and what the loop of \<open>toString\<close> appends when it ends.\<close>

definition bits_value :: "string \<Rightarrow> int" where
  "bits_value b = foldl (\<lambda>a c. 2 * a + (if c = CHR ''1'' then 1 else 0)) 0 b"

function render_chunks :: "(string \<times> string) list \<Rightarrow> nat \<Rightarrow> string \<Rightarrow> string" where
  "render_chunks tr bpd b =
     (if b = [] \<or> bpd = 0 then []
      else tr_get tr (take bpd b) @ render_chunks tr bpd (drop bpd b))"
  by pat_completeness auto
termination
  by (relation "measure (\<lambda>(tr, bpd, b). length b)") auto

declare render_chunks.simps [simp del]

section \<open>Verification: Hilbert curve\<close>

lemma bigint_div_nonneg: "0 \<le> a \<Longrightarrow> 0 < b \<Longrightarrow> bigint_div a b = a div b"
  by (simp add: bigint_div_def sgn_if)

lemma dec_loop_unfold:
  "Hilbert_decode_loop n s t ij =
     (if 0 < s \<and> s < n then Hilbert_decode_loop n (s * 2) (bigint_div t 4) (hstep s t ij) else ij)"
  by (subst Hilbert_decode_loop.simps) (simp add: hstep_def Let_def)

lemma dec_loop_snoc:
  "0 \<le> t \<Longrightarrow> m \<le> k \<Longrightarrow>
   Hilbert_decode_loop (2 ^ Suc k) (2 ^ m) t ij =
     hstep (2 ^ k) (t div 4 ^ (k - m)) (Hilbert_decode_loop (2 ^ k) (2 ^ m) t ij)"
proof (induction "k - m" arbitrary: m t ij)
  case 0
  then have mk: "m = k" by simp
  have "Hilbert_decode_loop (2 ^ Suc k) (2 ^ k) t ij
        = Hilbert_decode_loop (2 ^ Suc k) (2 ^ Suc k) (bigint_div t 4) (hstep (2 ^ k) t ij)"
    by (subst dec_loop_unfold) (simp add: mult.commute)
  also have "\<dots> = hstep (2 ^ k) t ij"
    by (subst dec_loop_unfold) simp
  finally have a: "Hilbert_decode_loop (2 ^ Suc k) (2 ^ k) t ij = hstep (2 ^ k) t ij" .
  have b: "Hilbert_decode_loop (2 ^ k) (2 ^ k) t ij = ij"
    by (subst dec_loop_unfold) simp
  show ?case using a b mk by simp
next
  case (Suc c)
  then have lt: "m < k" and c: "c = k - Suc m" by simp_all
  have t4: "bigint_div t 4 = t div 4" "0 \<le> t div 4"
    using Suc.prems by (simp_all add: bigint_div_nonneg)
  have p: "(2::int) ^ m < 2 ^ k" "(2::int) ^ m < 2 ^ Suc k" using lt power_strict_increasing[of m "Suc k" "2::int"] by simp_all
  have "Hilbert_decode_loop (2 ^ Suc k) (2 ^ m) t ij
        = Hilbert_decode_loop (2 ^ Suc k) (2 ^ Suc m) (t div 4) (hstep (2 ^ m) t ij)"
    using p(2) t4 by (subst dec_loop_unfold) (simp add: mult.commute)
  also have "\<dots> = hstep (2 ^ k) ((t div 4) div 4 ^ (k - Suc m))
                     (Hilbert_decode_loop (2 ^ k) (2 ^ Suc m) (t div 4) (hstep (2 ^ m) t ij))"
    using Suc.hyps(1)[OF c t4(2)] lt by simp
  also have "(t div 4) div 4 ^ (k - Suc m) = t div 4 ^ (k - m)"
  proof -
    have "k - m = Suc (k - Suc m)" using lt by simp
    then show ?thesis by (simp add: zdiv_zmult2_eq)
  qed
  also have "Hilbert_decode_loop (2 ^ k) (2 ^ Suc m) (t div 4) (hstep (2 ^ m) t ij)
             = Hilbert_decode_loop (2 ^ k) (2 ^ m) t ij"
    using p(1) t4 by (subst (2) dec_loop_unfold) (simp add: mult.commute)
  finally show ?case .
qed

lemma dec_loop_0: "Hilbert_decode_loop (2 ^ 0) 1 t ij = ij"
  by (subst dec_loop_unfold) simp

lemma dec_loop_Suc:
  "0 \<le> t \<Longrightarrow> Hilbert_decode_loop (2 ^ Suc k) 1 t ij =
     hstep (2 ^ k) (t div 4 ^ k) (Hilbert_decode_loop (2 ^ k) 1 t ij)"
  using dec_loop_snoc[of t 0 k ij] by simp

lemma hrx_eq: "0 \<le> t \<Longrightarrow> hrx t = (t div 2) mod 2"
  by (simp add: hrx_def bigint_div_nonneg one_and_eq)

lemma hry_eq: "0 \<le> t \<Longrightarrow> hry t = (if even t = even (t div 2) then 0 else 1)"
  by (simp add: hry_def hrx_eq one_and_eq even_xor_iff mod_2_eq_odd)

lemma hrx_range: "0 \<le> t \<Longrightarrow> hrx t = 0 \<or> hrx t = 1"
  by (auto simp: hrx_eq)

lemma hry_range: "0 \<le> t \<Longrightarrow> hry t = 0 \<or> hry t = 1"
  by (auto simp: hry_eq)

lemma hdigit: "0 \<le> t \<Longrightarrow> (3 * hrx t) XOR hry t = t mod 4"
proof -
  assume t: "0 \<le> t"
  have m4: "t mod 4 = 2 * ((t div 2) mod 2) + t mod 2"
    by presburger
  consider "even t" "even (t div 2)" | "odd t" "even (t div 2)"
    | "even t" "odd (t div 2)" | "odd t" "odd (t div 2)" by blast
  then show ?thesis
  proof cases
    case 1 then show ?thesis using t m4 by (simp add: hrx_eq hry_eq mod_2_eq_odd) next
    case 2 then show ?thesis using t m4 by (simp add: hrx_eq hry_eq mod_2_eq_odd) next
    case 3 then show ?thesis using t m4 by (simp add: hrx_eq hry_eq mod_2_eq_odd) next
    case 4 then show ?thesis using t m4 by (simp add: hrx_eq hry_eq mod_2_eq_odd)
  qed
qed

lemma hstep_eq: "hstep s t ij = (fst (rot s ij (hrx t) (hry t)) + s * hrx t, snd (rot s ij (hrx t) (hry t)) + s * hry t)"
  by (simp add: hstep_def hrx_def hry_def Let_def)

lemma ebit_pow: "ebit x (2 ^ k) = (if bit x k then 1 else 0)"
proof -
  have "0 \<le> x AND 2 ^ k" by simp
  moreover have "(x AND 2 ^ k = 0) = (\<not> bit x k)" by (rule and_exp_eq_0_iff_not_bit)
  ultimately show ?thesis unfolding ebit_def by (smt (verit))
qed

lemma enc_loop_unfold:
  "Hilbert_encode_loop s key ij =
     (if 1 \<le> s then
        Hilbert_encode_loop (bigint_div s 2)
          (key + s * s * ((3 * ebit (fst ij) s) XOR ebit (snd ij) s))
          (rot s ij (ebit (fst ij) s) (ebit (snd ij) s))
      else key)"
  by (subst Hilbert_encode_loop.simps) (simp add: ebit_def Let_def)

lemma enc_loop_stop: "Hilbert_encode_loop 0 key ij = key"
  by (subst enc_loop_unfold) simp

lemma half_pow: "bigint_div (2 ^ Suc m) 2 = 2 ^ m" "bigint_div 1 2 = 0"
  by (simp_all add: bigint_div_def)

lemma enc_loop_acc:
  "Hilbert_encode_loop (2 ^ m) key ij = key + Hilbert_encode_loop (2 ^ m) 0 ij"
proof (induction m arbitrary: key ij)
  case 0
  show ?case
    by (subst enc_loop_unfold, subst (2) enc_loop_unfold) (simp add: half_pow enc_loop_stop)
next
  case (Suc m)
  have one: "(1::int) \<le> 2 ^ Suc m" by (rule one_le_power) simp
  show ?case
    apply (subst enc_loop_unfold, subst (2) enc_loop_unfold)
    apply (simp only: one if_True half_pow)
    apply (subst Suc.IH, subst (2) Suc.IH)
    apply simp
    done
qed

lemma Ek_0: "Ek 0 ij = 0"
  by (simp add: Ek_def half_pow enc_loop_stop)

lemma Ek_Suc:
  "Ek (Suc k) ij =
     4 ^ k * ((3 * (if bit (fst ij) k then 1 else 0)) XOR (if bit (snd ij) k then 1 else 0))
     + Ek k (rot (2 ^ k) ij (if bit (fst ij) k then 1 else 0) (if bit (snd ij) k then 1 else 0))"
proof -
  have one: "(1::int) \<le> 2 ^ k" by (rule one_le_power) simp
  have sq: "(2::int) ^ k * 2 ^ k = 4 ^ k"
    by (simp add: power_mult_distrib[symmetric])
  show ?thesis
  proof (cases k)
    case 0
    show ?thesis unfolding Ek_def half_pow 0
      by (subst enc_loop_unfold) (simp add: half_pow enc_loop_stop ebit_def bit_0 and_one_eq mod_2_eq_odd)
  next
    case (Suc m)
    show ?thesis unfolding Ek_def half_pow
      apply (subst enc_loop_unfold)
      apply (simp only: one if_True ebit_pow)
      apply (simp only: Suc half_pow)
      apply (subst enc_loop_acc)
      apply (simp only: sq[unfolded Suc])
      done
  qed
qed

lemma rot_range:
  "0 \<le> fst ij \<Longrightarrow> fst ij < s \<Longrightarrow> 0 \<le> snd ij \<Longrightarrow> snd ij < s \<Longrightarrow>
   0 \<le> fst (rot s ij rx ry) \<and> fst (rot s ij rx ry) < s \<and>
   0 \<le> snd (rot s ij rx ry) \<and> snd (rot s ij rx ry) < s"
  by (simp add: rot_def Let_def)

lemma rot_mod:
  "fst ij mod s = fst ij' mod s \<Longrightarrow> snd ij mod s = snd ij' mod s \<Longrightarrow>
   fst (rot s ij rx ry) mod s = fst (rot s ij' rx ry) mod s \<and>
   snd (rot s ij rx ry) mod s = snd (rot s ij' rx ry) mod s"
  by (auto simp: rot_def Let_def intro: mod_diff_cong)

lemma bit_mod_pow: "bit ((x::int) mod 2 ^ Suc k) k = bit x k"
proof -
  have "x mod 2 ^ Suc k = take_bit (Suc k) x" by (simp only: take_bit_eq_mod)
  then show ?thesis by (simp add: bit_take_bit_iff)
qed

lemma Ek_mod: "Ek k ij = Ek k (fst ij mod 2 ^ k, snd ij mod 2 ^ k)"
proof (induction k arbitrary: ij)
  case 0
  show ?case by (simp add: Ek_0)
next
  case (Suc k)
  let ?ij' = "(fst ij mod 2 ^ Suc k, snd ij mod 2 ^ Suc k)"
  let ?rx = "if bit (fst ij) k then 1 else 0 :: int"
  let ?ry = "if bit (snd ij) k then 1 else 0 :: int"
  have c1: "fst ij mod 2 ^ k = fst ?ij' mod 2 ^ k" "snd ij mod 2 ^ k = snd ?ij' mod 2 ^ k"
    by (simp_all add: mod_mod_cancel)
  note r = rot_mod[OF c1, of ?rx ?ry]
  have e: "Ek k (rot (2 ^ k) ij ?rx ?ry) = Ek k (rot (2 ^ k) ?ij' ?rx ?ry)"
    by (subst Suc.IH, subst (2) Suc.IH) (simp only: r)
  show ?case
    by (simp only: Ek_Suc fst_conv snd_conv bit_mod_pow e)
qed

lemma bit_add_pow:
  "0 \<le> (x::int) \<Longrightarrow> x < 2 ^ k \<Longrightarrow> bit (x + 2 ^ k * r) k = odd r"
  by (simp add: bit_iff_odd)

lemma rot_hstep_back:
  "rx = 0 \<or> rx = 1 \<Longrightarrow> ry = 0 \<or> ry = 1 \<Longrightarrow>
   fst (rot s (fst (rot s ij rx ry) + s * rx, snd (rot s ij rx ry) + s * ry) rx ry) mod s = fst ij mod s \<and>
   snd (rot s (fst (rot s ij rx ry) + s * rx, snd (rot s ij rx ry) + s * ry) rx ry) mod s = snd ij mod s"
  by (auto simp: rot_def Let_def)

lemma Dk_0: "Dk 0 t = (0, 0)"
  using dec_loop_0[of t "(0,0)"] by (simp add: Dk_def)

lemma Dk_Suc: "0 \<le> t \<Longrightarrow> Dk (Suc k) t = hstep (2 ^ k) (t div 4 ^ k) (Dk k t)"
  unfolding Dk_def by (rule dec_loop_Suc)

lemma Dk_range_Ek:
  "0 \<le> t \<Longrightarrow>
   0 \<le> fst (Dk k t) \<and> fst (Dk k t) < 2 ^ k \<and> 0 \<le> snd (Dk k t) \<and> snd (Dk k t) < 2 ^ k \<and>
   Ek k (Dk k t) = t mod 4 ^ k"
proof (induction k)
  case 0
  show ?case by (simp add: Dk_0 Ek_0)
next
  case (Suc k)
  define u where "u = t div 4 ^ k"
  define s :: int where "s = 2 ^ k"
  define r where "r = rot s (Dk k t) (hrx u) (hry u)"
  define ij' where "ij' = (fst r + s * hrx u, snd r + s * hry u)"
  have u: "0 \<le> u" using Suc.prems by (simp add: u_def pos_imp_zdiv_nonneg_iff)
  have s: "0 < s" by (simp add: s_def)
  note IH = Suc.IH[OF Suc.prems, folded s_def]
  have D: "Dk (Suc k) t = ij'"
    using Dk_Suc[OF Suc.prems, of k] by (simp add: hstep_eq ij'_def r_def u_def s_def)
  have rr: "0 \<le> fst r \<and> fst r < s \<and> 0 \<le> snd r \<and> snd r < s"
    unfolding r_def using IH by (intro rot_range) simp_all
  have bx: "hrx u = 0 \<or> hrx u = 1" and bry: "hry u = 0 \<or> hry u = 1"
    using hrx_range[OF u] hry_range[OF u] by simp_all
  have range: "0 \<le> fst ij' \<and> fst ij' < 2 * s \<and> 0 \<le> snd ij' \<and> snd ij' < 2 * s"
    using rr bx bry s by (auto simp: ij'_def)
  have bitx: "bit (fst ij') k = (hrx u = 1)"
    using bit_add_pow[of "fst r" k "hrx u"] rr bx by (auto simp: ij'_def s_def)
  have bity: "bit (snd ij') k = (hry u = 1)"
    using bit_add_pow[of "snd r" k "hry u"] rr bry by (auto simp: ij'_def s_def)
  have ex: "(if bit (fst ij') k then 1 else 0) = hrx u" "(if bit (snd ij') k then 1 else 0) = hry u"
    using bitx bity bx bry by auto
  have bk: "fst (rot s ij' (hrx u) (hry u)) mod s = fst (Dk k t) mod s \<and>
              snd (rot s ij' (hrx u) (hry u)) mod s = snd (Dk k t) mod s"
    unfolding ij'_def r_def using bx bry by (rule rot_hstep_back)
  have "Ek k (rot s ij' (hrx u) (hry u)) = Ek k (Dk k t)"
    by (subst Ek_mod, subst (2) Ek_mod) (simp only: bk s_def[symmetric])
  then have "Ek (Suc k) ij' = 4 ^ k * (u mod 4) + t mod 4 ^ k"
    using IH by (simp only: Ek_Suc ex hdigit[OF u] s_def[symmetric])
  also have "\<dots> = t mod 4 ^ Suc k"
  proof -
    have "t mod (4 ^ k * 4) = 4 ^ k * (t div 4 ^ k mod 4) + t mod 4 ^ k"
      by (rule zmod_zmult2_eq) simp
    then show ?thesis unfolding u_def by (simp add: mult.commute)
  qed
  finally show ?case using range D by (simp add: s_def)
qed

lemma Ek_Dk: "0 \<le> t \<Longrightarrow> t < 4 ^ k \<Longrightarrow> Ek k (Dk k t) = t"
  using Dk_range_Ek[of t k] by simp

lemma Dk_Ek:
  assumes "0 \<le> i" "i < 2 ^ k" "0 \<le> j" "j < 2 ^ k"
  shows "Dk k (Ek k (i, j)) = (i, j) \<and> 0 \<le> Ek k (i, j) \<and> Ek k (i, j) < 4 ^ k"
proof -
  let ?A = "{0..<4 ^ k} :: int set"
  let ?B = "{0..<2 ^ k} \<times> {0..<2 ^ k} :: (int \<times> int) set"
  have inj: "inj_on (Dk k) ?A"
    by (rule inj_on_inverseI[where g = "Ek k"]) (simp add: Ek_Dk)
  have sub: "Dk k ` ?A \<subseteq> ?B"
  proof
    fix p assume "p \<in> Dk k ` ?A"
    then obtain t where t: "0 \<le> t" "p = Dk k t" by auto
    show "p \<in> ?B" using Dk_range_Ek[OF t(1), of k] t(2) by (simp add: mem_Times_iff)
  qed
  have "card (Dk k ` ?A) = card ?A" by (rule card_image[OF inj])
  also have "\<dots> = card ?B"
  proof -
    have "(4::int) ^ k = 2 ^ k * 2 ^ k" by (simp add: power_mult_distrib[symmetric])
    then have "nat (4 ^ k) = nat (2 ^ k) * nat (2 ^ k)" by (simp add: nat_mult_distrib)
    then show ?thesis by simp
  qed
  finally have "Dk k ` ?A = ?B" using sub by (intro card_subset_eq) simp_all
  moreover have "(i, j) \<in> ?B" using assms by simp
  ultimately have "(i, j) \<in> Dk k ` ?A" by simp
  then obtain t where t: "t \<in> ?A" "Dk k t = (i, j)" by (auto simp: image_iff)
  then have "Ek k (i, j) = t" using Ek_Dk[of t k] by auto
  then show ?thesis using t by simp
qed

lemma bin_digits_length: "n < 2 ^ m \<Longrightarrow> 0 < m \<Longrightarrow> length (bin_digits n) \<le> m"
proof (induction m arbitrary: n)
  case 0
  then show ?case by simp
next
  case (Suc m)
  show ?case
  proof (cases "n < 2")
    case True
    then show ?thesis by (subst bin_digits.simps) simp
  next
    case False
    then have m: "0 < m" using Suc.prems(1) by (cases m) auto
    have "n div 2 < 2 ^ m" using Suc.prems(1) by auto
    from Suc.IH[OF this m] False show ?thesis by (subst bin_digits.simps) simp
  qed
qed

lemma js_Number_exact: "0 \<le> x \<Longrightarrow> x < 2 ^ 53 \<Longrightarrow> js_Number x = x"
proof -
  assume x: "0 \<le> x" "x < 2 ^ 53"
  then have "nat x < 2 ^ 53" by (simp add: nat_less_iff)
  then have "length (bin_digits (nat x)) \<le> 53" by (rule bin_digits_length) simp
  then show ?thesis using x by (simp add: js_Number_def bigint_toString2_def Let_def)
qed

lemma js_Number_exact_le: "0 \<le> x \<Longrightarrow> x < 2 ^ k \<Longrightarrow> k \<le> 53 \<Longrightarrow> js_Number x = x"
proof -
  assume x: "0 \<le> x" "x < 2 ^ k" "k \<le> 53"
  have "(2::int) ^ k \<le> 2 ^ 53" using x(3) by (intro power_increasing) simp_all
  then show ?thesis using x js_Number_exact[of x] by simp
qed

lemma Hilbert_decode_Dk:
  "0 \<le> t \<Longrightarrow> k \<le> 53 \<Longrightarrow> Hilbert__bkey_decode t (2 ^ k) = Dk k t"
proof -
  assume t: "0 \<le> t" and k: "k \<le> 53"
  note r = Dk_range_Ek[OF t, of k]
  have "js_Number (fst (Dk k t)) = fst (Dk k t)" "js_Number (snd (Dk k t)) = snd (Dk k t)"
    using r k by (simp_all add: js_Number_exact_le[of _ k])
  then show ?thesis
    by (simp add: Hilbert__bkey_decode_def Let_def Dk_def[symmetric])
qed

lemma Hilbert_encode_Ek: "Hilbert__bkey_encode i j (2 ^ k) = Ek k (i, j)"
  by (simp add: Hilbert__bkey_encode_def Ek_def)

text \<open>
  Claim C1, as far as it holds. On a grid of side \<open>nRefRows = 2 ^ blevel\<close> with
  \<open>blevel \<le> 53\<close>, \<open>_bkey_encode\<close> and \<open>_bkey_decode\<close> are mutually inverse: encoding
  the pair decoded from a key \<open>0 \<le> bkey < 4 ^ blevel\<close> gives the key back, and decoding the key
  encoded from a pair \<open>0 \<le> i, j < 2 ^ blevel\<close> gives the pair back. The bound on \<open>blevel\<close>
  comes from \<open>_bkey_decode\<close> returning its coordinates through \<open>Number(...)\<close>.
\<close>

theorem Hilbert_roundtrip:
  "k \<le> 53 \<Longrightarrow>
   (0 \<le> bkey \<and> bkey < 4 ^ k \<longrightarrow>
      Hilbert__bkey_encode (fst (Hilbert__bkey_decode bkey (2 ^ k)))
        (snd (Hilbert__bkey_decode bkey (2 ^ k))) (2 ^ k) = bkey) \<and>
   (0 \<le> i \<and> i < 2 ^ k \<and> 0 \<le> j \<and> j < 2 ^ k \<longrightarrow>
      Hilbert__bkey_decode (Hilbert__bkey_encode i j (2 ^ k)) (2 ^ k) = (i, j))"
proof (intro conjI impI)
  assume "k \<le> 53" "0 \<le> bkey \<and> bkey < 4 ^ k"
  then show "Hilbert__bkey_encode (fst (Hilbert__bkey_decode bkey (2 ^ k)))
               (snd (Hilbert__bkey_decode bkey (2 ^ k))) (2 ^ k) = bkey"
    by (simp add: Hilbert_decode_Dk Hilbert_encode_Ek Ek_Dk)
next
  assume "k \<le> 53" "0 \<le> i \<and> i < 2 ^ k \<and> 0 \<le> j \<and> j < 2 ^ k"
  then show "Hilbert__bkey_decode (Hilbert__bkey_encode i j (2 ^ k)) (2 ^ k) = (i, j)"
    using Dk_Ek[of i k j] by (simp add: Hilbert_decode_Dk Hilbert_encode_Ek)
qed

theorem Hilbert_roundtrip_witness:
  "(2::nat) \<le> 53 \<and> (0::int) \<le> 7 \<and> (7::int) < 4 ^ 2 \<and>
   Hilbert__bkey_encode (fst (Hilbert__bkey_decode 7 (2 ^ 2)))
     (snd (Hilbert__bkey_decode 7 (2 ^ 2))) (2 ^ 2) = 7 \<and>
   (0::int) \<le> 3 \<and> (3::int) < 2 ^ 2 \<and> (0::int) \<le> 1 \<and> (1::int) < 2 ^ 2 \<and>
   Hilbert__bkey_decode (Hilbert__bkey_encode 3 1 (2 ^ 2)) (2 ^ 2) = (3, 1)"
proof -
  have h: "(2::nat) \<le> 53" by simp
  have k: "(0::int) \<le> 7 \<and> (7::int) < 4 ^ 2" by simp
  have c: "(0::int) \<le> 3 \<and> (3::int) < 2 ^ 2 \<and> (0::int) \<le> 1 \<and> (1::int) < 2 ^ 2" by simp
  note r = Hilbert_roundtrip[OF h, of 7 3 1]
  from r k have "Hilbert__bkey_encode (fst (Hilbert__bkey_decode 7 (2 ^ 2)))
     (snd (Hilbert__bkey_decode 7 (2 ^ 2))) (2 ^ 2) = 7" by blast
  moreover from r c have "Hilbert__bkey_decode (Hilbert__bkey_encode 3 1 (2 ^ 2)) (2 ^ 2) = (3, 1)"
    by blast
  ultimately show ?thesis using h k c by blast
qed

text \<open>
  At \<open>blevel = Fin 54\<close> the last key of the curve, \<open>4 ^ 54 - 1\<close>, lies in the cell
  \<open>(2 ^ 54 - 1, 0)\<close>; \<open>Number(2 ^ 54 - 1)\<close> is \<open>2 ^ 54\<close>, so \<open>_bkey_decode\<close> returns
  \<open>(2 ^ 54, 0)\<close>, and encoding that pair gives key \<open>0\<close>.
\<close>

theorem Hilbert_roundtrip_counterexample:
  "(0::int) \<le> 4 ^ 54 - 1 \<and> (4::int) ^ 54 - 1 < 4 ^ 54 \<and>
   Hilbert__bkey_decode (4 ^ 54 - 1) (2 ^ 54) = (2 ^ 54, 0) \<and>
   Hilbert__bkey_encode (fst (Hilbert__bkey_decode (4 ^ 54 - 1) (2 ^ 54)))
     (snd (Hilbert__bkey_decode (4 ^ 54 - 1) (2 ^ 54))) (2 ^ 54) \<noteq> 4 ^ 54 - 1"
proof -
  have l: "Hilbert_decode_loop (2 ^ 54) 1 (4 ^ 54 - 1) (0, 0) = (2 ^ 54 - 1, 0)"
    by (simp add: Hilbert_decode_loop.simps rot_def bigint_div_def Let_def)
  have n: "js_Number (2 ^ 54 - 1) = 2 ^ 54" "js_Number 0 = 0"
    by (simp_all add: js_Number_def bigint_toString2_def bin_digits.simps Let_def)
  have d: "Hilbert__bkey_decode (4 ^ 54 - 1) (2 ^ 54) = (2 ^ 54, 0)"
    unfolding Hilbert__bkey_decode_def l Let_def fst_conv snd_conv n ..
  have e: "Hilbert__bkey_encode (2 ^ 54) 0 (2 ^ 54) = 0"
    by code_simp
  have r: "(0::int) \<le> 4 ^ 54 - 1 \<and> (4::int) ^ 54 - 1 < 4 ^ 54 \<and> (0::int) \<noteq> 4 ^ 54 - 1"
    by simp
  show ?thesis unfolding d fst_conv snd_conv e using r by blast
qed

section \<open>Verification: Morton curve\<close>

lemma take_bit_Suc_or:
  "take_bit (Suc M) (x::int) = take_bit M x OR (if bit x M then 2 ^ M else 0)"
  by (rule bit_eqI) (auto simp: bit_simps less_Suc_eq)

lemma or_hom_bits:
  assumes f0: "f 0 = (0::int)"
    and f_or: "\<And>a b. f (a OR b) = f a OR f b"
    and g: "\<And>m. m < N \<Longrightarrow> f (2 ^ m) = g m"
  shows "M \<le> N \<Longrightarrow> bit (f (take_bit M (x::int))) n = (\<exists>m<M. bit x m \<and> bit (g m) n)"
proof (induction M)
  case 0
  show ?case by (simp add: f0)
next
  case (Suc M)
  then have IH: "bit (f (take_bit M x)) n = (\<exists>m<M. bit x m \<and> bit (g m) n)" and M: "M < N"
    by simp_all
  show ?case
    unfolding take_bit_Suc_or f_or bit_or_iff IH
    using g[OF M] by (auto simp: f0 less_Suc_eq)
qed

lemma interleave_0: "Morton__bkey_interleave 0 = 0"
  by (simp add: Morton__bkey_interleave_def)

lemma spread_step_or:
  "spread_step k m (a OR b) = spread_step k m a OR spread_step k m b"
  unfolding spread_step_def by (rule bit_eqI) (auto simp: bit_simps)

lemma collapse_step_or:
  "collapse_step k m (a OR b) = collapse_step k m a OR collapse_step k m b"
  unfolding collapse_step_def by (rule bit_eqI) (auto simp: bit_simps)

lemma mask_step_or: "(a OR b) AND (m::int) = (a AND m) OR (b AND m)"
  by (rule bit_eqI) (auto simp: bit_simps)

lemma interleave_steps:
  "Morton__bkey_interleave x =
     spread_step 1 0x5555555555555555 (spread_step 2 0x3333333333333333
       (spread_step 4 0x0f0f0f0f0f0f0f0f (spread_step 8 0x00ff00ff00ff00ff
         (spread_step 16 0x0000ffff0000ffff x))))"
  unfolding Morton__bkey_interleave_def Let_def spread_step_def ..

lemma deinterleave_steps:
  "Morton_deinterleave x =
     collapse_step 16 0x00000000ffffffff (collapse_step 8 0x0000ffff0000ffff
       (collapse_step 4 0x00ff00ff00ff00ff (collapse_step 2 0x0f0f0f0f0f0f0f0f
         (collapse_step 1 0x3333333333333333 (x AND 0x5555555555555555)))))"
  unfolding Morton_deinterleave_def Let_def collapse_step_def ..

lemma interleave_or:
  "Morton__bkey_interleave (a OR b) = Morton__bkey_interleave a OR Morton__bkey_interleave b"
  unfolding interleave_steps by (simp only: spread_step_or)

lemma deinterleave_0: "Morton_deinterleave 0 = 0"
  by (simp add: Morton_deinterleave_def)

lemma deinterleave_or:
  "Morton_deinterleave (a OR b) = Morton_deinterleave a OR Morton_deinterleave b"
  unfolding deinterleave_steps mask_step_or by (simp only: collapse_step_or)

lemma interleave_pow_all:
  "list_all (\<lambda>m. Morton__bkey_interleave (2 ^ m) = 2 ^ (2 * m)) [0..<32]"
  by code_simp


lemma deinterleave_pow_all:
  "list_all (\<lambda>m. Morton_deinterleave (2 ^ m) = (if even m then 2 ^ (m div 2) else 0)) [0..<64]"
  by code_simp


lemma interleave_pow: "m < 32 \<Longrightarrow> Morton__bkey_interleave (2 ^ m) = 2 ^ (2 * m)"
  using interleave_pow_all by (simp add: list_all_iff)

lemma deinterleave_pow:
  "m < 64 \<Longrightarrow> Morton_deinterleave (2 ^ m) = (if even m then 2 ^ (m div 2) else 0)"
  using deinterleave_pow_all unfolding list_all_iff by (simp del: upt_Suc)

lemma interleave_bit:
  "bit (Morton__bkey_interleave (take_bit 32 x)) n = (\<exists>m<32. bit x m \<and> n = 2 * m)"
proof -
  have "bit (Morton__bkey_interleave (take_bit 32 x)) n
        = (\<exists>m<32. bit x m \<and> bit ((2::int) ^ (2 * m)) n)"
    by (rule or_hom_bits[where N = 32 and g = "\<lambda>m. 2 ^ (2 * m)"])
       (simp_all add: interleave_0 interleave_or interleave_pow)
  then show ?thesis by (auto simp: bit_exp_iff)
qed

lemma deinterleave_bit:
  "bit (Morton_deinterleave (take_bit 64 d)) n = (n < 32 \<and> bit d (2 * n))"
proof -
  have "bit (Morton_deinterleave (take_bit 64 d)) n
        = (\<exists>m<64. bit d m \<and> bit (if even m then (2::int) ^ (m div 2) else 0) n)"
    by (rule or_hom_bits[where N = 64 and g = "\<lambda>m. if even m then 2 ^ (m div 2) else 0"])
       (simp_all add: deinterleave_0 deinterleave_or deinterleave_pow)
  also have "\<dots> = (n < 32 \<and> bit d (2 * n))"
  proof
    assume "\<exists>m<64. bit d m \<and> bit (if even m then (2::int) ^ (m div 2) else 0) n"
    then obtain m where m: "m < 64" "bit d m" "even m" "n = m div 2"
      by (auto simp: bit_exp_iff split: if_splits)
    then have "2 * n = m" by auto
    with m show "n < 32 \<and> bit d (2 * n)" by auto
  next
    assume "n < 32 \<and> bit d (2 * n)"
    then show "\<exists>m<64. bit d m \<and> bit (if even m then (2::int) ^ (m div 2) else 0) n"
      by (intro exI[of _ "2 * n"]) (simp add: bit_exp_iff)
  qed
  finally show ?thesis .
qed

lemma small_bit: "0 \<le> (x::int) \<Longrightarrow> x < 2 ^ N \<Longrightarrow> bit x n \<Longrightarrow> n < N"
proof -
  assume "0 \<le> x" "x < 2 ^ N" "bit x n"
  then have "bit (take_bit N x) n" by (simp add: take_bit_int_eq_self)
  then show "n < N" by (simp add: bit_take_bit_iff)
qed

lemma Morton_encode_bit:
  assumes "0 \<le> x" "x < 2 ^ 32" "0 \<le> y" "y < 2 ^ 32"
  shows "bit (Morton_bkey_encode x y) n = (if even n then bit x (n div 2) else bit y (n div 2))"
proof -
  have tx: "x = take_bit 32 x" and ty: "y = take_bit 32 y"
    using assms by (simp_all add: take_bit_int_eq_self)
  have bx: "bit (Morton__bkey_interleave x) k = (\<exists>m<32. bit x m \<and> k = 2 * m)" for k
    by (subst tx) (rule interleave_bit)
  have by1: "bit (Morton__bkey_interleave y) k = (\<exists>m<32. bit y m \<and> k = 2 * m)" for k
    by (subst ty) (rule interleave_bit)
  have sx: "bit x m \<Longrightarrow> m < 32" for m using small_bit[OF assms(1,2)] by simp
  have sy: "bit y m \<Longrightarrow> m < 32" for m using small_bit[OF assms(3,4)] by simp
  have e: "bit (Morton_bkey_encode x y) n =
      ((\<exists>m<32. bit x m \<and> n = 2 * m) \<or> (1 \<le> n \<and> (\<exists>m<32. bit y m \<and> n - 1 = 2 * m)))"
    unfolding Morton_bkey_encode_def Let_def bit_or_iff bit_push_bit_iff bx by1 by simp
  show ?thesis
  proof (cases "even n")
    case True
    then obtain m where n: "n = 2 * m" by (auto elim: evenE)
    have "\<not> (1 \<le> n \<and> (\<exists>m'<32. bit y m' \<and> n - 1 = 2 * m'))"
      unfolding n by presburger
    then show ?thesis unfolding e using sx by (auto simp: n)
  next
    case False
    then obtain m where n: "n = 2 * m + 1" by (auto elim: oddE)
    have "\<not> (\<exists>m'<32. bit x m' \<and> n = 2 * m')"
      unfolding n by presburger
    then show ?thesis unfolding e using sy by (auto simp: n)
  qed
qed


lemma Morton_encode_range:
  assumes "0 \<le> x" "x < 2 ^ 32" "0 \<le> y" "y < 2 ^ 32"
  shows "Morton_bkey_encode x y = take_bit 64 (Morton_bkey_encode x y)"
proof (rule bit_eqI)
  fix n
  have sx: "bit x m \<Longrightarrow> m < 32" for m using small_bit[OF assms(1,2)] by simp
  have sy: "bit y m \<Longrightarrow> m < 32" for m using small_bit[OF assms(3,4)] by simp
  have "bit (Morton_bkey_encode x y) n \<Longrightarrow> n < 64"
    unfolding Morton_encode_bit[OF assms] using sx[of "n div 2"] sy[of "n div 2"]
    by (auto split: if_splits)
  then show "bit (Morton_bkey_encode x y) n = bit (take_bit 64 (Morton_bkey_encode x y)) n"
    by (auto simp: bit_take_bit_iff)
qed

lemma Morton_decode_encode:
  assumes "0 \<le> x" "x < 2 ^ 32" "0 \<le> y" "y < 2 ^ 32"
  shows "Morton_deinterleave (Morton_bkey_encode x y) = x"
    and "Morton_deinterleave (drop_bit 1 (Morton_bkey_encode x y)) = y"
proof -
  let ?e = "Morton_bkey_encode x y"
  have sx: "bit x m \<Longrightarrow> m < 32" for m using small_bit[OF assms(1,2)] by simp
  have sy: "bit y m \<Longrightarrow> m < 32" for m using small_bit[OF assms(3,4)] by simp
  have te: "?e = take_bit 64 ?e" by (rule Morton_encode_range[OF assms])
  show "Morton_deinterleave ?e = x"
  proof (rule bit_eqI)
    fix n
    have "bit (Morton_deinterleave ?e) n = (n < 32 \<and> bit ?e (2 * n))"
      by (subst te) (rule deinterleave_bit)
    then show "bit (Morton_deinterleave ?e) n = bit x n"
      using sx[of n] by (auto simp: Morton_encode_bit[OF assms])
  qed
  have td: "drop_bit 1 ?e = take_bit 64 (drop_bit 1 ?e)"
  proof (rule bit_eqI)
    fix n
    have "bit ?e (n + 1) \<Longrightarrow> n < 64"
      unfolding Morton_encode_bit[OF assms] using sx[of "(n + 1) div 2"] sy[of "(n + 1) div 2"]
      by (auto split: if_splits)
    then show "bit (drop_bit 1 ?e) n = bit (take_bit 64 (drop_bit 1 ?e)) n"
      by (auto simp: bit_take_bit_iff bit_drop_bit_eq)
  qed
  show "Morton_deinterleave (drop_bit 1 ?e) = y"
  proof (rule bit_eqI)
    fix n
    have "bit (Morton_deinterleave (drop_bit 1 ?e)) n = (n < 32 \<and> bit (drop_bit 1 ?e) (2 * n))"
      by (subst td) (rule deinterleave_bit)
    then show "bit (Morton_deinterleave (drop_bit 1 ?e)) n = bit y n"
      using sy[of n] by (auto simp: bit_drop_bit_eq Morton_encode_bit[OF assms])
  qed
qed

text \<open>
  Claim C2. For all 32-bit coordinates \<open>0 \<le> x, y < 2 ^ 32\<close>, \<open>bkey_decode\<close> undoes
  \<open>bkey_encode\<close>, the key fits in 64 bits, and bit \<open>b\<close> of \<open>x\<close> sits at the even position
  \<open>2 * b\<close> of the key and bit \<open>b\<close> of \<open>y\<close> at the odd position \<open>2 * b + 1\<close>.
\<close>

theorem Morton_roundtrip:
  "0 \<le> x \<and> x < 2 ^ 32 \<and> 0 \<le> y \<and> y < 2 ^ 32 \<Longrightarrow>
   Morton_bkey_decode (Morton_bkey_encode x y) = (x, y) \<and>
   0 \<le> Morton_bkey_encode x y \<and> Morton_bkey_encode x y < 2 ^ 64 \<and>
   bit (Morton_bkey_encode x y) (2 * b) = bit x b \<and>
   bit (Morton_bkey_encode x y) (2 * b + 1) = bit y b"
proof -
  assume a: "0 \<le> x \<and> x < 2 ^ 32 \<and> 0 \<le> y \<and> y < 2 ^ 32"
  then have r: "0 \<le> x" "x < 2 ^ 32" "0 \<le> y" "y < 2 ^ 32" by simp_all
  have x53: "x < 2 ^ 53" and y53: "y < 2 ^ 53" using r by simp_all
  have d: "Morton_bkey_decode (Morton_bkey_encode x y) = (x, y)"
    unfolding Morton_bkey_decode_def Morton_decode_encode[OF r]
    using js_Number_exact[OF r(1) x53] js_Number_exact[OF r(3) y53] by simp
  have nn: "0 \<le> Morton_bkey_encode x y"
    by (simp add: Morton_bkey_encode_def Morton__bkey_interleave_def Let_def)
  have "take_bit 64 (Morton_bkey_encode x y) < 2 ^ 64" by (rule take_bit_int_less_exp)
  then have lt: "Morton_bkey_encode x y < 2 ^ 64"
    using Morton_encode_range[OF r] by simp
  have b0: "bit (Morton_bkey_encode x y) (2 * b) = bit x b"
    and b1: "bit (Morton_bkey_encode x y) (2 * b + 1) = bit y b"
    unfolding Morton_encode_bit[OF r] by simp_all
  show ?thesis using d nn lt b0 b1 by blast
qed

theorem Morton_roundtrip_witness:
  "(0::int) \<le> 5 \<and> (5::int) < 2 ^ 32 \<and> (0::int) \<le> 3 \<and> (3::int) < 2 ^ 32 \<and>
   Morton_bkey_decode (Morton_bkey_encode 5 3) = (5, 3) \<and>
   0 \<le> Morton_bkey_encode 5 3 \<and> Morton_bkey_encode 5 3 < 2 ^ 64 \<and>
   bit (Morton_bkey_encode 5 3) (2 * 2) = bit (5::int) 2 \<and>
   bit (Morton_bkey_encode 5 3) (2 * 2 + 1) = bit (3::int) 2"
proof -
  have h: "(0::int) \<le> 5 \<and> (5::int) < 2 ^ 32 \<and> (0::int) \<le> 3 \<and> (3::int) < 2 ^ 32" by simp
  show ?thesis using h Morton_roundtrip[OF h, of 2] by blast
qed

section \<open>Verification: grid constants and key translation\<close>

lemma ceiling_examples:
  "\<lceil>3 / 10 :: rat\<rceil> = 1" "\<lceil>1 / 2 :: rat\<rceil> = 1" "\<lceil>- (3 / 10) :: rat\<rceil> = 0"
  by (rule ceiling_unique; simp)+

lemmas refresh_eval =
  GSfc4q_new_def refresh_def GSfc4q_fresh_def ToBoolean_def ToNumber_def Math_ceil_def
  num_neq_def num_minus_def BigInt_of_Number_def Let_def bigint_pow_def
  bigint_toString2_def bin_digits.simps bigint_div_def ceiling_examples

lemma grid_half:
  "GSfc4q_new (LNumber (Fin (1 / 2))) =
     Inr \<lparr>level = LNumber (Fin (1 / 2)), blevel = Fin 1, isHalf = True, nKeys = 2, nBKeys = 4, keyBits = 1,
          bkeyBits = 2, nRefRows = 2, needSwap = False, halfIsOptimized = False\<rparr>"
  by (simp add: refresh_eval)

lemma grid_one:
  "GSfc4q_new (LNumber (Fin 1)) =
     Inr \<lparr>level = LNumber (Fin 1), blevel = Fin 1, isHalf = False, nKeys = 4, nBKeys = 4, keyBits = 2,
          bkeyBits = 2, nRefRows = 2, needSwap = False, halfIsOptimized = False\<rparr>"
  by (simp add: refresh_eval)

lemma Morton_decode_small:
  "Morton_bkey_decode 0 = (0, 0)" "Morton_bkey_decode 1 = (1, 0)"
  "Morton_bkey_decode 2 = (0, 1)" "Morton_bkey_decode 3 = (1, 1)"
  "Morton_bkey_decode 4 = (2, 0)"
  by (simp_all add: Morton_bkey_decode_def Morton_deinterleave_def js_Number_def
        bigint_toString2_def bin_digits.simps Let_def)

lemma Morton_new_half:
  "\<exists>s. GSfc4qLbl_Morton_new (LNumber (Fin (1 / 2))) (Some ''4h'') None = Inr (s, \<lparr>level = LNumber (Fin (1 / 2)), blevel = Fin 1, isHalf = True, nKeys = 2, nBKeys = 4, keyBits = 1,
           bkeyBits = 2, nRefRows = 2, needSwap = False, halfIsOptimized = False,
           base_label = Some ''4h'', sbiID = \<lparr>val = None, bits = 0\<rparr>, id0 = None,
           id0_maxBits = None, curveName = ''Morton''\<rparr>)"
proof -
  have "map_sum fst snd (GSfc4qLbl_Morton_new (LNumber (Fin (1 / 2))) (Some ''4h'') None) = Inr \<lparr>level = LNumber (Fin (1 / 2)), blevel = Fin 1, isHalf = True, nKeys = 2, nBKeys = 4, keyBits = 1,
           bkeyBits = 2, nRefRows = 2, needSwap = False, halfIsOptimized = False,
           base_label = Some ''4h'', sbiID = \<lparr>val = None, bits = 0\<rparr>, id0 = None,
           id0_maxBits = None, curveName = ''Morton''\<rparr>"
    by code_simp
  then show ?thesis
    by (cases "GSfc4qLbl_Morton_new (LNumber (Fin (1 / 2))) (Some ''4h'') None") auto
qed

text \<open>
  Claim C5. At a half level, \<open>key_decode(key)\<close> for a key in \<open>[0, nKeys)\<close> is the pair
  \<open>(bkey_decode(2 * key), bkey_decode(2 * key + 1))\<close>, whatever the curve's \<open>bkey_decode\<close>;
  and the object \<open>new GSfc4qLbl_Morton(0.5, '4h')\<close> has \<open>nKeys = 2\<close> and decodes key \<open>0\<close> to
  \<open>((0,0),(1,0))\<close> and key \<open>1\<close> to \<open>((0,1),(1,1))\<close>.
\<close>

theorem key_decode_half:
  "(isHalf this \<and> 0 \<le> key \<and> key < nKeys this \<longrightarrow>
      key_decode dec this key = (dec (2 * key), Some (dec (2 * key + 1)))) \<and>
   (case GSfc4qLbl_Morton_new (LNumber (Fin (1 / 2))) (Some ''4h'') None of
      Inl e \<Rightarrow> False
    | Inr (s, g) \<Rightarrow> isHalf g \<and> nKeys g = 2 \<and>
        key_decode Morton_bkey_decode g 0 = ((0, 0), Some (1, 0)) \<and>
        key_decode Morton_bkey_decode g 1 = ((0, 1), Some (1, 1)))"
proof -
  obtain s where n: "GSfc4qLbl_Morton_new (LNumber (Fin (1 / 2))) (Some ''4h'') None = Inr (s, \<lparr>level = LNumber (Fin (1 / 2)), blevel = Fin 1, isHalf = True, nKeys = 2, nBKeys = 4, keyBits = 1,
           bkeyBits = 2, nRefRows = 2, needSwap = False, halfIsOptimized = False,
           base_label = Some ''4h'', sbiID = \<lparr>val = None, bits = 0\<rparr>, id0 = None,
           id0_maxBits = None, curveName = ''Morton''\<rparr>)"
    using Morton_new_half by blast
  show ?thesis
    by (simp add: n key_decode_def Let_def Morton_decode_small)
qed

theorem key_decode_half_witness:
  "isHalf \<lparr>level = LNumber (Fin (1 / 2)), blevel = Fin 1, isHalf = True, nKeys = 2, nBKeys = 4, keyBits = 1,
          bkeyBits = 2, nRefRows = 2, needSwap = False, halfIsOptimized = False\<rparr> \<and>
   (0::int) \<le> 1 \<and>
   1 < nKeys \<lparr>level = LNumber (Fin (1 / 2)), blevel = Fin 1, isHalf = True, nKeys = 2, nBKeys = 4, keyBits = 1,
          bkeyBits = 2, nRefRows = 2, needSwap = False, halfIsOptimized = False\<rparr> \<and>
   key_decode Morton_bkey_decode
     \<lparr>level = LNumber (Fin (1 / 2)), blevel = Fin 1, isHalf = True, nKeys = 2, nBKeys = 4, keyBits = 1,
          bkeyBits = 2, nRefRows = 2, needSwap = False, halfIsOptimized = False\<rparr> 1
     = (Morton_bkey_decode (2 * 1), Some (Morton_bkey_decode (2 * 1 + 1)))"
  using key_decode_half[of "\<lparr>level = LNumber (Fin (1 / 2)), blevel = Fin 1, isHalf = True, nKeys = 2,
          nBKeys = 4, keyBits = 1, bkeyBits = 2, nRefRows = 2, needSwap = False,
          halfIsOptimized = False\<rparr>" 1 Morton_bkey_decode]
  by simp

lemma refresh_throws: "l \<noteq> 0 \<Longrightarrow> l \<le> - 1 \<Longrightarrow>
    refresh (LNumber (Fin l)) this =
      Inl (RangeError,
           this\<lparr>level := LNumber (Fin (of_int \<lceil>l\<rceil> - (if of_int \<lceil>l\<rceil> \<noteq> l then 1 / 2 else 0))),
                blevel := Fin (of_int \<lceil>l\<rceil>), isHalf := (of_int \<lceil>l\<rceil> \<noteq> l)\<rparr>)"
  by (simp add: refresh_def ToBoolean_def ToNumber_def Math_ceil_def num_neq_def num_minus_def
        BigInt_of_Number_def Let_def bigint_pow_def)

lemma refresh_returns: "l \<noteq> 0 \<Longrightarrow> - 1 < l \<Longrightarrow>
    \<exists>this'. refresh (LNumber (Fin l)) this = Inr this' \<and> blevel this' = Fin (of_int \<lceil>l\<rceil>) \<and>
      isHalf this' = (of_int \<lceil>l\<rceil> \<noteq> l) \<and>
      level this' = LNumber (Fin (of_int \<lceil>l\<rceil> - (if of_int \<lceil>l\<rceil> \<noteq> l then 1 / 2 else 0))) \<and>
      nBKeys this' = 4 ^ nat \<lceil>l\<rceil> \<and>
      nKeys this' = (if of_int \<lceil>l\<rceil> \<noteq> l then bigint_div (4 ^ nat \<lceil>l\<rceil>) 2 else 4 ^ nat \<lceil>l\<rceil>) \<and>
      nRefRows this' = 2 ^ nat \<lceil>l\<rceil>"
  by (simp add: refresh_def ToBoolean_def ToNumber_def Math_ceil_def num_neq_def num_minus_def
        BigInt_of_Number_def Let_def bigint_pow_def)

lemma refresh_infinite:
  "refresh (LNumber PosInf) this =
     Inl (RangeError, this\<lparr>level := LNumber PosInf, blevel := PosInf, isHalf := False\<rparr>)"
  "refresh (LNumber NegInf) this =
     Inl (RangeError, this\<lparr>level := LNumber NegInf, blevel := NegInf, isHalf := False\<rparr>)"
  by (simp_all add: refresh_def ToBoolean_def ToNumber_def Math_ceil_def num_neq_def
        num_minus_def BigInt_of_Number_def Let_def)

lemma refresh_error_kind:
  "refresh lv this = Inl (e, this') \<Longrightarrow> e = RangeError \<or> e = TypeError"
  by (auto simp: refresh_def Let_def bigint_pow_def ToNumber_def BigInt_of_Number_def
        split: sum.splits js_level.splits js_num.splits if_splits)

lemma new_error_kind: "GSfc4q_new lv = Inl e \<Longrightarrow> e = RangeError \<or> e = TypeError"
  using refresh_error_kind[of lv GSfc4q_fresh]
  by (auto simp: GSfc4q_new_def split: sum.splits prod.splits)

text \<open>
  Claim C6, as far as it holds. \<open>refresh\<close> and the constructor make no check of their own on
  the level, and raise no error of their own: an error that comes out of them is a
  \<open>RangeError\<close> or a \<open>TypeError\<close> of the run-time. For a finite non-zero Number: a level
  \<open>\<le> -1\<close> fails with the \<open>RangeError\<close> of the BigInt exponentiation with a negative exponent,
  the fields \<open>level\<close>, \<open>blevel\<close> and \<open>isHalf\<close> being overwritten already; a level above \<open>-1\<close>
  and up to \<open>1024\<close> is accepted, and one that is not an integer, multiple of \<open>0.5\<close> or not,
  configures the half level \<open>ceil(level) - 0.5\<close>. The two infinities fail with the
  \<open>RangeError\<close> of \<open>BigInt(this.blevel)\<close>.
\<close>

theorem refresh_no_level_check:
  "(l \<noteq> 0 \<and> l \<le> - 1 \<longrightarrow>
      refresh (LNumber (Fin l)) this =
        Inl (RangeError,
             this\<lparr>level := LNumber (Fin (of_int \<lceil>l\<rceil> - (if of_int \<lceil>l\<rceil> \<noteq> l then 1 / 2 else 0))),
                  blevel := Fin (of_int \<lceil>l\<rceil>), isHalf := (of_int \<lceil>l\<rceil> \<noteq> l)\<rparr>) \<and>
      GSfc4q_new (LNumber (Fin l)) = Inl RangeError) \<and>
   (m \<noteq> 0 \<and> - 1 < m \<and> m \<le> 1024 \<longrightarrow>
      (case refresh (LNumber (Fin m)) this of
         Inl (e, this') \<Rightarrow> False
       | Inr this' \<Rightarrow>
           blevel this' = Fin (of_int \<lceil>m\<rceil>) \<and> isHalf this' = (of_int \<lceil>m\<rceil> \<noteq> m) \<and>
           level this' = LNumber (Fin (of_int \<lceil>m\<rceil> - (if of_int \<lceil>m\<rceil> \<noteq> m then 1 / 2 else 0))) \<and>
           nBKeys this' = 4 ^ nat \<lceil>m\<rceil> \<and>
           nKeys this' = (if of_int \<lceil>m\<rceil> \<noteq> m then bigint_div (4 ^ nat \<lceil>m\<rceil>) 2 else 4 ^ nat \<lceil>m\<rceil>) \<and>
           nRefRows this' = 2 ^ nat \<lceil>m\<rceil>) \<and>
      (case GSfc4q_new (LNumber (Fin m)) of
         Inl e \<Rightarrow> False
       | Inr this' \<Rightarrow>
           blevel this' = Fin (of_int \<lceil>m\<rceil>) \<and> isHalf this' = (of_int \<lceil>m\<rceil> \<noteq> m) \<and>
           level this' = LNumber (Fin (of_int \<lceil>m\<rceil> - (if of_int \<lceil>m\<rceil> \<noteq> m then 1 / 2 else 0))) \<and>
           nBKeys this' = 4 ^ nat \<lceil>m\<rceil> \<and>
           nKeys this' = (if of_int \<lceil>m\<rceil> \<noteq> m then bigint_div (4 ^ nat \<lceil>m\<rceil>) 2 else 4 ^ nat \<lceil>m\<rceil>) \<and>
           nRefRows this' = 2 ^ nat \<lceil>m\<rceil>)) \<and>
   refresh (LNumber PosInf) this =
     Inl (RangeError, this\<lparr>level := LNumber PosInf, blevel := PosInf, isHalf := False\<rparr>) \<and>
   refresh (LNumber NegInf) this =
     Inl (RangeError, this\<lparr>level := LNumber NegInf, blevel := NegInf, isHalf := False\<rparr>) \<and>
   (refresh lv this = Inl (e, this1) \<longrightarrow> e = RangeError \<or> e = TypeError) \<and>
   (GSfc4q_new lv = Inl e \<longrightarrow> e = RangeError \<or> e = TypeError)"
proof (intro conjI impI)
  assume a: "l \<noteq> 0 \<and> l \<le> - 1"
  then show "refresh (LNumber (Fin l)) this =
        Inl (RangeError,
             this\<lparr>level := LNumber (Fin (of_int \<lceil>l\<rceil> - (if of_int \<lceil>l\<rceil> \<noteq> l then 1 / 2 else 0))),
                  blevel := Fin (of_int \<lceil>l\<rceil>), isHalf := (of_int \<lceil>l\<rceil> \<noteq> l)\<rparr>)"
    by (simp add: refresh_throws)
  from a show "GSfc4q_new (LNumber (Fin l)) = Inl RangeError"
    by (simp add: GSfc4q_new_def refresh_throws)
next
  assume a: "m \<noteq> 0 \<and> - 1 < m \<and> m \<le> 1024"
  then have m: "m \<noteq> 0" "- 1 < m" by simp_all
  from refresh_returns[OF m, of this]
  show "case refresh (LNumber (Fin m)) this of
         Inl (e, this') \<Rightarrow> False
       | Inr this' \<Rightarrow>
           blevel this' = Fin (of_int \<lceil>m\<rceil>) \<and> isHalf this' = (of_int \<lceil>m\<rceil> \<noteq> m) \<and>
           level this' = LNumber (Fin (of_int \<lceil>m\<rceil> - (if of_int \<lceil>m\<rceil> \<noteq> m then 1 / 2 else 0))) \<and>
           nBKeys this' = 4 ^ nat \<lceil>m\<rceil> \<and>
           nKeys this' = (if of_int \<lceil>m\<rceil> \<noteq> m then bigint_div (4 ^ nat \<lceil>m\<rceil>) 2 else 4 ^ nat \<lceil>m\<rceil>) \<and>
           nRefRows this' = 2 ^ nat \<lceil>m\<rceil>"
    by auto
  from refresh_returns[OF m, of GSfc4q_fresh]
  show "case GSfc4q_new (LNumber (Fin m)) of
         Inl e \<Rightarrow> False
       | Inr this' \<Rightarrow>
           blevel this' = Fin (of_int \<lceil>m\<rceil>) \<and> isHalf this' = (of_int \<lceil>m\<rceil> \<noteq> m) \<and>
           level this' = LNumber (Fin (of_int \<lceil>m\<rceil> - (if of_int \<lceil>m\<rceil> \<noteq> m then 1 / 2 else 0))) \<and>
           nBKeys this' = 4 ^ nat \<lceil>m\<rceil> \<and>
           nKeys this' = (if of_int \<lceil>m\<rceil> \<noteq> m then bigint_div (4 ^ nat \<lceil>m\<rceil>) 2 else 4 ^ nat \<lceil>m\<rceil>) \<and>
           nRefRows this' = 2 ^ nat \<lceil>m\<rceil>"
    by (auto simp: GSfc4q_new_def)
next
  show "refresh (LNumber PosInf) this =
     Inl (RangeError, this\<lparr>level := LNumber PosInf, blevel := PosInf, isHalf := False\<rparr>)"
    by (rule refresh_infinite)
  show "refresh (LNumber NegInf) this =
     Inl (RangeError, this\<lparr>level := LNumber NegInf, blevel := NegInf, isHalf := False\<rparr>)"
    by (rule refresh_infinite)
next
  assume "refresh lv this = Inl (e, this1)"
  then show "e = RangeError \<or> e = TypeError" by (rule refresh_error_kind)
next
  assume "GSfc4q_new lv = Inl e"
  then show "e = RangeError \<or> e = TypeError" by (rule new_error_kind)
qed

theorem refresh_no_level_check_witness:
  "(- 2 :: rat) \<noteq> 0 \<and> (- 2 :: rat) \<le> - 1 \<and>
   refresh (LNumber (Fin (- 2))) GSfc4q_fresh =
     Inl (RangeError, GSfc4q_fresh\<lparr>level := LNumber (Fin (- 2)), blevel := Fin (- 2), isHalf := False\<rparr>) \<and>
   GSfc4q_new (LNumber (Fin (- 2))) = Inl RangeError \<and>
   (3 / 10 :: rat) \<noteq> 0 \<and> - 1 < (3 / 10 :: rat) \<and> (3 / 10 :: rat) \<le> 1024 \<and>
   (case refresh (LNumber (Fin (3 / 10))) GSfc4q_fresh of
      Inl (e, this') \<Rightarrow> False
    | Inr this' \<Rightarrow> blevel this' = Fin 1 \<and> isHalf this' = True \<and>
        level this' = LNumber (Fin (1 / 2)) \<and> nBKeys this' = 4 \<and> nKeys this' = 2 \<and>
        nRefRows this' = 2) \<and>
   (RangeError = RangeError \<or> RangeError = TypeError)"
proof -
  have h1: "(- 2 :: rat) \<noteq> 0 \<and> (- 2 :: rat) \<le> - 1" by simp
  have h2: "(3 / 10 :: rat) \<noteq> 0 \<and> - 1 < (3 / 10 :: rat) \<and> (3 / 10 :: rat) \<le> 1024" by simp
  note t = refresh_no_level_check[where l = "- 2" and m = "3 / 10" and this = GSfc4q_fresh
      and lv = "LNumber (Fin (- 2))" and e = RangeError
      and ?this1.0 = "GSfc4q_fresh\<lparr>level := LNumber (Fin (- 2)), blevel := Fin (- 2), isHalf := False\<rparr>"]
  from t h1 have a: "refresh (LNumber (Fin (- 2))) GSfc4q_fresh =
     Inl (RangeError, GSfc4q_fresh\<lparr>level := LNumber (Fin (- 2)), blevel := Fin (- 2), isHalf := False\<rparr>)"
    by simp
  from t h1 have b: "GSfc4q_new (LNumber (Fin (- 2))) = Inl RangeError" by blast
  from t h2 have c: "case refresh (LNumber (Fin (3 / 10))) GSfc4q_fresh of
      Inl (e, this') \<Rightarrow> False
    | Inr this' \<Rightarrow> blevel this' = Fin 1 \<and> isHalf this' = True \<and>
        level this' = LNumber (Fin (1 / 2)) \<and> nBKeys this' = 4 \<and> nKeys this' = 2 \<and>
        nRefRows this' = 2"
    by (simp add: ceiling_examples bigint_div_def split: sum.splits prod.splits)
  from t a have d: "RangeError = RangeError \<or> RangeError = TypeError" by blast
  show ?thesis using h1 h2 a b c d by blast
qed

text \<open>
  Level \<open>0.3\<close> is accepted and configures the grid of level \<open>0.5\<close>; the negative level
  \<open>-0.3\<close> is accepted too.
\<close>

theorem refresh_no_level_check_counterexample:
  "GSfc4q_new (LNumber (Fin (3 / 10))) =
     Inr \<lparr>level = LNumber (Fin (1 / 2)), blevel = Fin 1, isHalf = True, nKeys = 2, nBKeys = 4, keyBits = 1,
          bkeyBits = 2, nRefRows = 2, needSwap = False, halfIsOptimized = False\<rparr> \<and>
   GSfc4q_new (LNumber (Fin (- 3 / 10))) =
     Inr \<lparr>level = LNumber (Fin (- 1 / 2)), blevel = Fin 0, isHalf = True, nKeys = 0, nBKeys = 1, keyBits = 0,
          bkeyBits = 1, nRefRows = 1, needSwap = False, halfIsOptimized = False\<rparr>"
  by (simp add: refresh_eval)

lemma Hilbert_encode_small: "Hilbert__bkey_encode 2 0 2 = 0" "Hilbert__bkey_encode 0 0 2 = 0"
  by (simp_all add: Hilbert__bkey_encode_def Hilbert_encode_loop.simps bigint_div_def rot_def Let_def)

lemma Morton_encode_small: "Morton_bkey_encode 2 0 = 4"
  by (simp add: Morton_bkey_encode_def Morton__bkey_interleave_def Let_def)

lemma deinterleave_range: "0 \<le> Morton_deinterleave d \<and> Morton_deinterleave d < 2 ^ 32"
proof -
  have "Morton_deinterleave d \<le> 0x00000000ffffffff"
    unfolding Morton_deinterleave_def Let_def by (rule AND_upper2) simp
  moreover have "0 \<le> Morton_deinterleave d"
    by (simp add: Morton_deinterleave_def Let_def)
  ultimately show ?thesis by simp
qed

lemma Morton_decode_bits:
  assumes "0 \<le> key" "key < 2 ^ 64"
  shows "bit (fst (Morton_bkey_decode key)) n = (n < 32 \<and> bit key (2 * n))"
    and "bit (snd (Morton_bkey_decode key)) n = (n < 32 \<and> bit key (2 * n + 1))"
proof -
  have t: "key = take_bit 64 key" using assms by (simp add: take_bit_int_eq_self)
  have t1: "drop_bit 1 key = take_bit 64 (drop_bit 1 key)"
  proof (rule bit_eqI)
    fix m
    have "bit key (m + 1) \<Longrightarrow> m < 64" using small_bit[OF assms, of "m + 1"] by simp
    then show "bit (drop_bit 1 key) m = bit (take_bit 64 (drop_bit 1 key)) m"
      by (auto simp: bit_take_bit_iff bit_drop_bit_eq)
  qed
  have e: "js_Number (Morton_deinterleave d) = Morton_deinterleave d" for d
    using deinterleave_range[of d] by (intro js_Number_exact_le[of _ 32]) simp_all
  show "bit (fst (Morton_bkey_decode key)) n = (n < 32 \<and> bit key (2 * n))"
    unfolding Morton_bkey_decode_def fst_conv e by (subst t) (rule deinterleave_bit)
  have "bit (Morton_deinterleave (drop_bit 1 key)) n = (n < 32 \<and> bit (drop_bit 1 key) (2 * n))"
    by (subst t1) (rule deinterleave_bit)
  then show "bit (snd (Morton_bkey_decode key)) n = (n < 32 \<and> bit key (2 * n + 1))"
    unfolding Morton_bkey_decode_def snd_conv e by (simp add: bit_drop_bit_eq)
qed

lemma Morton_decode_nonneg:
  "0 \<le> fst (Morton_bkey_decode key) \<and> 0 \<le> snd (Morton_bkey_decode key)"
proof -
  have e: "js_Number (Morton_deinterleave d) = Morton_deinterleave d" for d
    using deinterleave_range[of d] by (intro js_Number_exact_le[of _ 32]) simp_all
  show ?thesis unfolding Morton_bkey_decode_def fst_conv snd_conv e
    using deinterleave_range by simp
qed

lemma Morton_decode_outside:
  assumes "4 ^ b \<le> key" "key < 2 ^ 64"
  shows "\<not> (fst (Morton_bkey_decode key) < 2 ^ b \<and> snd (Morton_bkey_decode key) < 2 ^ b)"
proof
  assume in_grid: "fst (Morton_bkey_decode key) < 2 ^ b \<and> snd (Morton_bkey_decode key) < 2 ^ b"
  have k0: "0 \<le> key" using assms(1) by (smt (verit) zero_le_power)
  note nn = Morton_decode_nonneg[of key]
  have nx: "\<not> bit (fst (Morton_bkey_decode key)) n" if "b \<le> n" for n
    using small_bit[of "fst (Morton_bkey_decode key)" b n] nn in_grid that by auto
  have ny: "\<not> bit (snd (Morton_bkey_decode key)) n" if "b \<le> n" for n
    using small_bit[of "snd (Morton_bkey_decode key)" b n] nn in_grid that by auto
  have "key = take_bit (2 * b) key"
  proof (rule bit_eqI)
    fix m
    have "m < 2 * b" if bm: "bit key m"
    proof (rule ccontr)
      assume "\<not> m < 2 * b"
      then have mb: "b \<le> m div 2" by simp
      have m64: "m < 64" using small_bit[OF k0 assms(2) bm] .
      then have m32: "m div 2 < 32" by simp
      show False
      proof (cases "even m")
        case True
        then have "2 * (m div 2) = m" by simp
        then have "bit (fst (Morton_bkey_decode key)) (m div 2)"
          using Morton_decode_bits(1)[OF k0 assms(2), of "m div 2"] m32 bm by simp
        then show False using nx[OF mb] by simp
      next
        case False
        then have "2 * (m div 2) + 1 = m" by presburger
        then have "bit (snd (Morton_bkey_decode key)) (m div 2)"
          using Morton_decode_bits(2)[OF k0 assms(2), of "m div 2"] m32 bm by simp
        then show False using ny[OF mb] by simp
      qed
    qed
    then show "bit key m = bit (take_bit (2 * b) key) m"
      by (auto simp: bit_take_bit_iff)
  qed
  moreover have "take_bit (2 * b) key < 2 ^ (2 * b)" by (rule take_bit_int_less_exp)
  ultimately have "key < 2 ^ (2 * b)" by simp
  also have "(2::int) ^ (2 * b) = 4 ^ b" by (simp add: power_mult)
  finally show False using assms(1) by simp
qed

lemma Hilbert_encode_wraps:
  "nRefRows this = 2 ^ b \<Longrightarrow>
   Hilbert_bkey_encode this i j =
     Hilbert_bkey_encode this (i mod nRefRows this) (j mod nRefRows this)"
  using Ek_mod[of b "(i, j)"] by (simp add: Hilbert_bkey_encode_def Hilbert_encode_Ek)

text \<open>
  Claim C7, as far as it holds. Neither \<open>key_decode\<close> nor \<open>key_encode\<close> has a bounds check
  or a \<open>throw\<close>: a key \<open>\<ge> nKeys\<close> and a coordinate \<open>\<ge> nRefRows\<close> are handed to the curve's
  \<open>bkey_decode\<close> and \<open>bkey_encode\<close> like any other, and the result is returned. With the
  Morton method at an integer level, a key from \<open>nKeys\<close> up to 64 bits is decoded to a cell
  outside the grid; with the Hilbert method, the bits of a coordinate from \<open>nRefRows\<close> on are
  ignored, so the key of another cell is returned.
\<close>

theorem key_range_unchecked:
  "(nKeys this \<le> key \<longrightarrow>
      key_decode dec this key =
        (if isHalf this then (dec (2 * key), Some (dec (2 * key + 1))) else (dec key, None))) \<and>
   (nRefRows this \<le> i \<or> nRefRows this \<le> j \<longrightarrow>
      key_encode enc this i j =
        (if isHalf this then (2 * (enc i j div 2), Some (2 * (enc i j div 2) + 1))
         else (enc i j, None))) \<and>
   (\<not> isHalf this \<and> nKeys this = 4 ^ b \<and> nRefRows this = 2 ^ b \<and>
    nKeys this \<le> key \<and> key < 2 ^ 64 \<longrightarrow>
      key_decode Morton_bkey_decode this key = (Morton_bkey_decode key, None) \<and>
      \<not> (fst (Morton_bkey_decode key) < nRefRows this \<and>
         snd (Morton_bkey_decode key) < nRefRows this)) \<and>
   (nRefRows this = 2 ^ b \<longrightarrow>
      Hilbert_bkey_encode this i j =
        Hilbert_bkey_encode this (i mod nRefRows this) (j mod nRefRows this))"
proof (intro conjI impI)
  show "key_decode dec this key =
        (if isHalf this then (dec (2 * key), Some (dec (2 * key + 1))) else (dec key, None))"
    by (simp add: key_decode_def Let_def)
  show "key_encode enc this i j =
        (if isHalf this then (2 * (enc i j div 2), Some (2 * (enc i j div 2) + 1))
         else (enc i j, None))"
    by (simp add: key_encode_def Let_def drop_bit_eq_div push_bit_eq_mult)
next
  assume a: "\<not> isHalf this \<and> nKeys this = 4 ^ b \<and> nRefRows this = 2 ^ b \<and>
    nKeys this \<le> key \<and> key < 2 ^ 64"
  then show "key_decode Morton_bkey_decode this key = (Morton_bkey_decode key, None)"
    by (simp add: key_decode_def)
  from a have "4 ^ b \<le> key" "key < 2 ^ 64" by simp_all
  from Morton_decode_outside[OF this] a
  show "\<not> (fst (Morton_bkey_decode key) < nRefRows this \<and>
         snd (Morton_bkey_decode key) < nRefRows this)"
    by simp
next
  assume "nRefRows this = 2 ^ b"
  then show "Hilbert_bkey_encode this i j =
        Hilbert_bkey_encode this (i mod nRefRows this) (j mod nRefRows this)"
    by (rule Hilbert_encode_wraps)
qed

theorem key_range_unchecked_witness:
  "nKeys \<lparr>level = LNumber (Fin 1), blevel = Fin 1, isHalf = False, nKeys = 4, nBKeys = 4, keyBits = 2,
          bkeyBits = 2, nRefRows = 2, needSwap = False, halfIsOptimized = False\<rparr> \<le> 4 \<and>
   key_decode Morton_bkey_decode \<lparr>level = LNumber (Fin 1), blevel = Fin 1, isHalf = False, nKeys = 4, nBKeys = 4, keyBits = 2,
          bkeyBits = 2, nRefRows = 2, needSwap = False, halfIsOptimized = False\<rparr> 4 = (Morton_bkey_decode 4, None) \<and>
   (nRefRows \<lparr>level = LNumber (Fin 1), blevel = Fin 1, isHalf = False, nKeys = 4, nBKeys = 4, keyBits = 2,
          bkeyBits = 2, nRefRows = 2, needSwap = False, halfIsOptimized = False\<rparr> \<le> 2 \<or> nRefRows \<lparr>level = LNumber (Fin 1), blevel = Fin 1, isHalf = False, nKeys = 4, nBKeys = 4, keyBits = 2,
          bkeyBits = 2, nRefRows = 2, needSwap = False, halfIsOptimized = False\<rparr> \<le> 0) \<and>
   key_encode Morton_bkey_encode \<lparr>level = LNumber (Fin 1), blevel = Fin 1, isHalf = False, nKeys = 4, nBKeys = 4, keyBits = 2,
          bkeyBits = 2, nRefRows = 2, needSwap = False, halfIsOptimized = False\<rparr> 2 0 = (Morton_bkey_encode 2 0, None) \<and>
   \<not> isHalf \<lparr>level = LNumber (Fin 1), blevel = Fin 1, isHalf = False, nKeys = 4, nBKeys = 4, keyBits = 2,
          bkeyBits = 2, nRefRows = 2, needSwap = False, halfIsOptimized = False\<rparr> \<and> nKeys \<lparr>level = LNumber (Fin 1), blevel = Fin 1, isHalf = False, nKeys = 4, nBKeys = 4, keyBits = 2,
          bkeyBits = 2, nRefRows = 2, needSwap = False, halfIsOptimized = False\<rparr> = 4 ^ 1 \<and> nRefRows \<lparr>level = LNumber (Fin 1), blevel = Fin 1, isHalf = False, nKeys = 4, nBKeys = 4, keyBits = 2,
          bkeyBits = 2, nRefRows = 2, needSwap = False, halfIsOptimized = False\<rparr> = 2 ^ 1 \<and> (4 :: int) < 2 ^ 64 \<and>
   \<not> (fst (Morton_bkey_decode 4) < nRefRows \<lparr>level = LNumber (Fin 1), blevel = Fin 1, isHalf = False, nKeys = 4, nBKeys = 4, keyBits = 2,
          bkeyBits = 2, nRefRows = 2, needSwap = False, halfIsOptimized = False\<rparr> \<and> snd (Morton_bkey_decode 4) < nRefRows \<lparr>level = LNumber (Fin 1), blevel = Fin 1, isHalf = False, nKeys = 4, nBKeys = 4, keyBits = 2,
          bkeyBits = 2, nRefRows = 2, needSwap = False, halfIsOptimized = False\<rparr>) \<and>
   Hilbert_bkey_encode \<lparr>level = LNumber (Fin 1), blevel = Fin 1, isHalf = False, nKeys = 4, nBKeys = 4, keyBits = 2,
          bkeyBits = 2, nRefRows = 2, needSwap = False, halfIsOptimized = False\<rparr> 2 0 = Hilbert_bkey_encode \<lparr>level = LNumber (Fin 1), blevel = Fin 1, isHalf = False, nKeys = 4, nBKeys = 4, keyBits = 2,
          bkeyBits = 2, nRefRows = 2, needSwap = False, halfIsOptimized = False\<rparr> (2 mod nRefRows \<lparr>level = LNumber (Fin 1), blevel = Fin 1, isHalf = False, nKeys = 4, nBKeys = 4, keyBits = 2,
          bkeyBits = 2, nRefRows = 2, needSwap = False, halfIsOptimized = False\<rparr>) (0 mod nRefRows \<lparr>level = LNumber (Fin 1), blevel = Fin 1, isHalf = False, nKeys = 4, nBKeys = 4, keyBits = 2,
          bkeyBits = 2, nRefRows = 2, needSwap = False, halfIsOptimized = False\<rparr>)"
proof -
  let ?g = "\<lparr>level = LNumber (Fin 1), blevel = Fin 1, isHalf = False, nKeys = 4, nBKeys = 4, keyBits = 2,
          bkeyBits = 2, nRefRows = 2, needSwap = False, halfIsOptimized = False\<rparr>"
  have h1: "nKeys ?g \<le> 4" by simp
  have h2: "nRefRows ?g \<le> 2 \<or> nRefRows ?g \<le> 0" by simp
  have h3: "\<not> isHalf ?g \<and> nKeys ?g = 4 ^ 1 \<and> nRefRows ?g = 2 ^ 1 \<and> nKeys ?g \<le> 4 \<and>
            (4 :: int) < 2 ^ 64" by simp
  have h4: "nRefRows ?g = 2 ^ 1" by simp
  note t = key_range_unchecked[of ?g 4 Morton_bkey_decode 2 0 Morton_bkey_encode 1]
  from t h1 have a: "key_decode Morton_bkey_decode ?g 4 = (Morton_bkey_decode 4, None)"
    by simp
  from t h2 have b: "key_encode Morton_bkey_encode ?g 2 0 = (Morton_bkey_encode 2 0, None)"
    by simp
  from t h3 have c: "\<not> (fst (Morton_bkey_decode 4) < nRefRows ?g \<and>
                         snd (Morton_bkey_decode 4) < nRefRows ?g)"
    by blast
  from t h4 have d: "Hilbert_bkey_encode ?g 2 0 =
                       Hilbert_bkey_encode ?g (2 mod nRefRows ?g) (0 mod nRefRows ?g)"
    by blast
  show ?thesis using h1 h2 h3 a b c d by blast
qed

text \<open>
  At level \<open>1\<close> (\<open>nKeys = 4\<close>, \<open>nRefRows = 2\<close>): the Morton \<open>key_decode(4)\<close> returns the cell
  \<open>(2, 0)\<close> outside the grid, the Morton \<open>key_encode(2, 0)\<close> returns key \<open>4\<close>, and the Hilbert
  \<open>key_encode(2, 0)\<close> returns key \<open>0\<close>, the key of cell \<open>(0, 0)\<close>.
\<close>

theorem key_range_unchecked_counterexample:
  "GSfc4q_new (LNumber (Fin 1)) =
     Inr \<lparr>level = LNumber (Fin 1), blevel = Fin 1, isHalf = False, nKeys = 4, nBKeys = 4, keyBits = 2,
          bkeyBits = 2, nRefRows = 2, needSwap = False, halfIsOptimized = False\<rparr> \<and>
   key_decode Morton_bkey_decode
     \<lparr>level = LNumber (Fin 1), blevel = Fin 1, isHalf = False, nKeys = 4, nBKeys = 4, keyBits = 2,
          bkeyBits = 2, nRefRows = 2, needSwap = False, halfIsOptimized = False\<rparr> 4
     = ((2, 0), None) \<and>
   key_encode Morton_bkey_encode
     \<lparr>level = LNumber (Fin 1), blevel = Fin 1, isHalf = False, nKeys = 4, nBKeys = 4, keyBits = 2,
          bkeyBits = 2, nRefRows = 2, needSwap = False, halfIsOptimized = False\<rparr> 2 0
     = (4, None) \<and>
   key_encode
     (Hilbert_bkey_encode \<lparr>level = LNumber (Fin 1), blevel = Fin 1, isHalf = False, nKeys = 4, nBKeys = 4,
          keyBits = 2, bkeyBits = 2, nRefRows = 2, needSwap = False, halfIsOptimized = False\<rparr>)
     \<lparr>level = LNumber (Fin 1), blevel = Fin 1, isHalf = False, nKeys = 4, nBKeys = 4, keyBits = 2,
          bkeyBits = 2, nRefRows = 2, needSwap = False, halfIsOptimized = False\<rparr> 2 0
     = (0, None)"
  by (simp add: grid_one key_decode_def key_encode_def Hilbert_bkey_encode_def
        Morton_decode_small Hilbert_encode_small Morton_encode_small)


lemma refresh_zero_arg: "refresh (LNumber (Fin 0)) this = refresh LUndefined this"
  by (simp add: refresh_def ToBoolean_def)

lemma new_zero_arg: "GSfc4q_new (LNumber (Fin 0)) = GSfc4q_new (LNumber (Fin 1))"
  by (simp add: GSfc4q_new_def refresh_def ToBoolean_def GSfc4q_fresh_def)

lemma refresh_value:
  "ToNumber (level_used lv this) = Inr (Fin q) \<Longrightarrow> 0 \<le> \<lceil>q\<rceil> \<Longrightarrow>
   refresh lv this = Inr (configured q this)"
  by (simp add: refresh_def level_used_def[symmetric] configured_def Math_ceil_def num_neq_def
        num_minus_def BigInt_of_Number_def Let_def bigint_pow_def)

lemma refresh_success:
  assumes "refresh lv this = Inr this'"
  shows "\<exists>q. ToNumber (level_used lv this) = Inr (Fin q) \<and> 0 \<le> \<lceil>q\<rceil> \<and> this' = configured q this"
proof (cases "ToNumber (level_used lv this)")
  case (Inl e)
  with assms show ?thesis by (simp add: refresh_def level_used_def[symmetric] Let_def)
next
  case (Inr x)
  show ?thesis
  proof (cases x)
    case (Fin q)
    have "0 \<le> \<lceil>q\<rceil>"
    proof (rule ccontr)
      assume "\<not> 0 \<le> \<lceil>q\<rceil>"
      then have "\<lceil>q\<rceil> < 0" by simp
      then show False using assms Inr Fin
        by (simp add: refresh_def level_used_def[symmetric] Math_ceil_def BigInt_of_Number_def
              Let_def bigint_pow_def del: ceiling_less_zero)
    qed
    with assms Inr Fin refresh_value[of lv this q] show ?thesis by auto
  next
    case PosInf
    with assms Inr show ?thesis
      by (simp add: refresh_def level_used_def[symmetric] Math_ceil_def BigInt_of_Number_def Let_def)
  next
    case NegInf
    with assms Inr show ?thesis
      by (simp add: refresh_def level_used_def[symmetric] Math_ceil_def BigInt_of_Number_def Let_def)
  next
    case NaN
    with assms Inr show ?thesis
      by (simp add: refresh_def level_used_def[symmetric] Math_ceil_def BigInt_of_Number_def Let_def)
  qed
qed

lemma refresh_failure:
  assumes "refresh lv this = Inl (e, this')"
  shows "nKeys this' = nKeys this \<and>
         (level this' = level_used lv this \<or> (\<exists>n. level this' = LNumber n))"
  using assms
  by (auto simp: refresh_def level_used_def[symmetric] Let_def bigint_pow_def
        split: sum.splits if_splits)

lemma ceiling_minus_half: "\<lceil>of_int b - 1 / 2 :: rat\<rceil> = b"
  by (rule ceiling_unique) simp_all

lemma half_not_int: "of_int b - 1 / 2 \<noteq> (of_int c :: rat)"
proof
  assume "of_int b - 1 / 2 = (of_int c :: rat)"
  then have "(of_int (2 * (b - c)) :: rat) = of_int 1" by (simp add: field_simps)
  then have "2 * (b - c) = 1" by (simp only: of_int_eq_iff)
  then show False by presburger
qed

lemma configured_level:
  "level (configured q this) =
     LNumber (Fin (of_int \<lceil>q\<rceil> - (if of_int \<lceil>q\<rceil> \<noteq> q then 1 / 2 else 0)))"
  by (simp add: configured_def Let_def)

lemma configured_idem:
  "configured (of_int \<lceil>q\<rceil> - (if of_int \<lceil>q\<rceil> \<noteq> q then 1 / 2 else 0)) (configured q this) =
     configured q this"
proof (cases "of_int \<lceil>q\<rceil> \<noteq> q")
  case True
  have n: "of_int \<lceil>q\<rceil> \<noteq> (of_int \<lceil>q\<rceil> - 1 / 2 :: rat)" by simp
  show ?thesis using True
    by (simp add: configured_def Let_def ceiling_minus_half n
          del: of_int_ceiling_cancel)
next
  case False
  then show ?thesis by (simp add: configured_def Let_def)
qed

lemma refresh_keeps_level:
  assumes "refresh lv this0 = Inr this" "level this \<noteq> LNumber (Fin 0)"
  shows "refresh (LNumber (Fin 0)) this = Inr this"
proof -
  from refresh_success[OF assms(1)] obtain q where
    q: "0 \<le> \<lceil>q\<rceil>" "this = configured q this0" by blast
  define l1 :: rat where "l1 = of_int \<lceil>q\<rceil> - (if of_int \<lceil>q\<rceil> \<noteq> q then 1 / 2 else 0)"
  have lv: "level this = LNumber (Fin l1)" by (simp add: q(2) configured_level l1_def)
  with assms(2) have nz: "l1 \<noteq> 0" by simp
  have c: "\<lceil>l1\<rceil> = \<lceil>q\<rceil>" by (simp add: l1_def ceiling_minus_half)
  have u: "level_used (LNumber (Fin 0)) this = LNumber (Fin l1)"
    using nz by (simp add: level_used_def ToBoolean_def lv)
  have p: "0 \<le> \<lceil>l1\<rceil>" using q(1) by (simp only: c)
  have n: "ToNumber (level_used (LNumber (Fin 0)) this) = Inr (Fin l1)"
    by (simp add: u ToNumber_def)
  have "refresh (LNumber (Fin 0)) this = Inr (configured l1 this)"
    by (rule refresh_value[OF n p])
  also have "configured l1 this = this"
    unfolding q(2) l1_def by (rule configured_idem)
  finally show ?thesis .
qed

lemma four_pow_div2: "(4::int) ^ n div 2 \<noteq> 1"
proof (cases n)
  case 0
  then show ?thesis by simp
next
  case (Suc k)
  have "(4::int) ^ Suc k div 2 = 2 * 4 ^ k" by simp
  then show ?thesis unfolding Suc by presburger
qed

lemma configured_nKeys: "q \<noteq> 0 \<Longrightarrow> 0 \<le> \<lceil>q\<rceil> \<Longrightarrow> nKeys (configured q this) \<noteq> 1"
proof -
  assume q: "q \<noteq> 0" "0 \<le> \<lceil>q\<rceil>"
  show ?thesis
  proof (cases "of_int \<lceil>q\<rceil> \<noteq> q")
    case True
    then show ?thesis using four_pow_div2[of "nat \<lceil>q\<rceil>"]
      by (simp add: configured_def Let_def bigint_div_def)
  next
    case False
    then have e: "of_int \<lceil>q\<rceil> = q" by simp
    have "\<lceil>q\<rceil> \<noteq> 0" using e q(1) by auto
    then have "0 < nat \<lceil>q\<rceil>" using q(2) by linarith
    then have "(1::int) < 4 ^ nat \<lceil>q\<rceil>" by (intro one_less_power) simp_all
    then show ?thesis using e by (simp add: configured_def Let_def)
  qed
qed

lemma level_used_value:
  assumes "not_string_like lv" "not_string_like (level this)"
    "ToNumber (level_used lv this) = Inr (Fin q)"
  shows "q \<noteq> 0"
  using assms
  by (auto simp: level_used_def ToBoolean_def ToNumber_def not_string_like_def
        split: if_splits js_level.splits)

lemma level_used_not_string:
  "not_string_like lv \<Longrightarrow> not_string_like (level this) \<Longrightarrow> not_string_like (level_used lv this)"
  by (simp add: level_used_def not_string_like_def)

lemma refresh_invariant:
  assumes "not_string_like lv" "not_string_like (level this)" "nKeys this \<noteq> 1"
  shows "(refresh lv this = Inr this' \<longrightarrow> nKeys this' \<noteq> 1 \<and> not_string_like (level this')) \<and>
         (refresh lv this = Inl (e, this') \<longrightarrow> nKeys this' \<noteq> 1 \<and> not_string_like (level this'))"
proof (intro conjI impI)
  assume r: "refresh lv this = Inr this'"
  from refresh_success[OF r] obtain q where
    q: "ToNumber (level_used lv this) = Inr (Fin q)" "0 \<le> \<lceil>q\<rceil>" "this' = configured q this"
    by blast
  from level_used_value[OF assms(1,2) q(1)] have "q \<noteq> 0" .
  then show "nKeys this' \<noteq> 1" using q by (simp add: configured_nKeys)
  show "not_string_like (level this')"
    by (simp add: q(3) configured_level not_string_like_def)
next
  assume r: "refresh lv this = Inl (e, this')"
  from refresh_failure[OF r] assms(3) show "nKeys this' \<noteq> 1" by simp
  from refresh_failure[OF r] level_used_not_string[OF assms(1,2)]
  show "not_string_like (level this')" by (auto simp: not_string_like_def)
qed

lemma reachable_invariant:
  "g \<in> GSfc4q_reachable {lv. not_string_like lv} \<Longrightarrow> nKeys g \<noteq> 1 \<and> not_string_like (level g)"
proof (induction rule: GSfc4q_reachable.induct)
  case (constructed lv g)
  then obtain g0 where g0: "refresh lv GSfc4q_fresh = Inr g0" "nKeys g = nKeys g0" "level g = level g0"
    by (auto simp: GSfc4q_new_def split: sum.splits prod.splits)
  have "not_string_like (level GSfc4q_fresh)" "nKeys GSfc4q_fresh \<noteq> 1"
    by (simp_all add: GSfc4q_fresh_def not_string_like_def)
  from refresh_invariant[OF _ this, of lv g0] constructed(1) g0 show ?case by simp
next
  case (refreshed g lv g')
  then show ?case using refresh_invariant[of lv g g'] by simp
next
  case (refresh_threw g lv e g')
  then show ?case using refresh_invariant[of lv g g' e] by simp
qed

text \<open>
  Claim C10, as far as it holds. The Number \<open>0\<close> is falsy: \<open>refresh(0)\<close> is \<open>refresh()\<close>, the
  constructor with \<open>0\<close> builds the default grid of level \<open>1\<close>, and \<open>refresh(0)\<close> on an object
  configured at a level other than \<open>0\<close> leaves it as it is. No object obtained from the
  constructor and calls of \<open>refresh\<close> whose level arguments are neither strings nor objects
  has \<open>blevel = 0\<close> together with \<open>nKeys = 1\<close>.
\<close>

theorem level_zero_unreachable:
  "refresh (LNumber (Fin 0)) this = refresh LUndefined this \<and>
   GSfc4q_new (LNumber (Fin 0)) = GSfc4q_new (LNumber (Fin 1)) \<and>
   GSfc4q_new (LNumber (Fin 0)) =
     Inr \<lparr>level = LNumber (Fin 1), blevel = Fin 1, isHalf = False, nKeys = 4, nBKeys = 4, keyBits = 2,
          bkeyBits = 2, nRefRows = 2, needSwap = False, halfIsOptimized = False\<rparr> \<and>
   (refresh lv this0 = Inr this \<and> level this \<noteq> LNumber (Fin 0) \<longrightarrow>
      refresh (LNumber (Fin 0)) this = Inr this) \<and>
   (g \<in> GSfc4q_reachable {lv. not_string_like lv} \<longrightarrow> \<not> (blevel g = Fin 0 \<and> nKeys g = 1))"
  using refresh_zero_arg[of this] new_zero_arg grid_one refresh_keeps_level[of lv this0 this]
    reachable_invariant[of g]
  by auto


theorem level_zero_unreachable_witness:
  "refresh (LNumber (Fin 2)) GSfc4q_fresh =
     Inr \<lparr>level = LNumber (Fin 2), blevel = Fin 2, isHalf = False, nKeys = 16, nBKeys = 16, keyBits = 4,
          bkeyBits = 4, nRefRows = 4, needSwap = False, halfIsOptimized = False\<rparr> \<and>
   level \<lparr>level = LNumber (Fin 2), blevel = Fin 2, isHalf = False, nKeys = 16, nBKeys = 16, keyBits = 4,
          bkeyBits = 4, nRefRows = 4, needSwap = False, halfIsOptimized = False\<rparr> \<noteq> LNumber (Fin 0) \<and>
   refresh (LNumber (Fin 0))
     \<lparr>level = LNumber (Fin 2), blevel = Fin 2, isHalf = False, nKeys = 16, nBKeys = 16, keyBits = 4,
          bkeyBits = 4, nRefRows = 4, needSwap = False, halfIsOptimized = False\<rparr> =
     Inr \<lparr>level = LNumber (Fin 2), blevel = Fin 2, isHalf = False, nKeys = 16, nBKeys = 16, keyBits = 4,
          bkeyBits = 4, nRefRows = 4, needSwap = False, halfIsOptimized = False\<rparr> \<and>
   \<lparr>level = LNumber (Fin 2), blevel = Fin 2, isHalf = False, nKeys = 16, nBKeys = 16, keyBits = 4,
          bkeyBits = 4, nRefRows = 4, needSwap = False, halfIsOptimized = False\<rparr>
     \<in> GSfc4q_reachable {lv. not_string_like lv} \<and>
   \<not> (blevel \<lparr>level = LNumber (Fin 2), blevel = Fin 2, isHalf = False, nKeys = 16, nBKeys = 16, keyBits = 4,
          bkeyBits = 4, nRefRows = 4, needSwap = False, halfIsOptimized = False\<rparr> = Fin 0 \<and>
      nKeys \<lparr>level = LNumber (Fin 2), blevel = Fin 2, isHalf = False, nKeys = 16, nBKeys = 16, keyBits = 4,
          bkeyBits = 4, nRefRows = 4, needSwap = False, halfIsOptimized = False\<rparr> = 1)"
proof -
  let ?g = "\<lparr>level = LNumber (Fin 2), blevel = Fin 2, isHalf = False, nKeys = 16, nBKeys = 16, keyBits = 4,
          bkeyBits = 4, nRefRows = 4, needSwap = False, halfIsOptimized = False\<rparr>"
  have r: "refresh (LNumber (Fin 2)) GSfc4q_fresh = Inr ?g"
    by (simp add: refresh_eval)
  have n: "GSfc4q_new (LNumber (Fin 2)) = Inr ?g"
    by (simp add: GSfc4q_new_def r)
  have a: "LNumber (Fin 2) \<in> {lv. not_string_like lv}"
    by (simp add: not_string_like_def)
  have m: "?g \<in> GSfc4q_reachable {lv. not_string_like lv}"
    by (rule GSfc4q_reachable.constructed[OF a n])
  have l: "level ?g \<noteq> LNumber (Fin 0)" by simp
  note t = level_zero_unreachable[of ?g "LNumber (Fin 2)" GSfc4q_fresh ?g]
  from t r l have k: "refresh (LNumber (Fin 0)) ?g = Inr ?g" by blast
  from t m have u: "\<not> (blevel ?g = Fin 0 \<and> nKeys ?g = 1)" by blast
  show ?thesis using r l k m u by blast
qed

text \<open>
  A string is truthy unless it is empty: \<open>new GSfc4q('0')\<close> and \<open>refresh('0')\<close> configure the
  single-cell grid of level \<open>0\<close>, with \<open>blevel = 0\<close> and \<open>nKeys = 1\<close>.
\<close>

theorem level_zero_unreachable_counterexample:
  "GSfc4q_new (LString ''0'') =
     Inr \<lparr>level = LNumber (Fin 0), blevel = Fin 0, isHalf = False, nKeys = 1, nBKeys = 1, keyBits = 1,
          bkeyBits = 1, nRefRows = 1, needSwap = False, halfIsOptimized = False\<rparr> \<and>
   refresh (LString ''0'')
     \<lparr>level = LNumber (Fin 1), blevel = Fin 1, isHalf = False, nKeys = 4, nBKeys = 4, keyBits = 2,
          bkeyBits = 2, nRefRows = 2, needSwap = False, halfIsOptimized = False\<rparr> =
     Inr \<lparr>level = LNumber (Fin 0), blevel = Fin 0, isHalf = False, nKeys = 1, nBKeys = 1, keyBits = 1,
          bkeyBits = 1, nRefRows = 1, needSwap = False, halfIsOptimized = False\<rparr>"
  by code_simp


section \<open>Verification: sized integers\<close>

lemma trim_end_bits: "list_all is_bit b \<Longrightarrow> trim_end b = b"
proof (cases "rev b")
  case Nil
  then show ?thesis by (simp add: trim_end_def)
next
  case (Cons c cs)
  assume "list_all is_bit b"
  then have "list_all is_bit (rev b)" by (simp add: list_all_iff)
  then have "is_bit c" using Cons by simp
  then have "\<not> StrWhiteSpaceChar c" by (auto simp: is_bit_def StrWhiteSpaceChar_def)
  then have "dropWhile StrWhiteSpaceChar (rev b) = rev b" using Cons by simp
  then show ?thesis by (simp add: trim_end_def)
qed

lemma BigInt_0b_bits:
  "b \<noteq> [] \<Longrightarrow> list_all is_bit b \<Longrightarrow>
   BigInt_0b b = Inr (foldl (\<lambda>a c. 2 * a + (if c = CHR ''1'' then 1 else 0)) 0 b)"
  by (simp add: BigInt_0b_def trim_end_bits)

lemma kx_RefreshDefaults_None: "kx_RefreshDefaults None = Inr kx_initial"
  by code_simp

lemma kx_RefreshDefaults_ok: "\<exists>s. kx_RefreshDefaults g = Inr s"
  by (cases g) (simp_all add: kx_RefreshDefaults_None, simp add: kx_RefreshDefaults_def)

lemma fromAny_Big:
  "fromAny (Val (Big v)) radix maxBits flag this s =
     (case fromInt (Big v) maxBits (Some (case flag of None \<Rightarrow> True | Some c \<Rightarrow> c)) this of
        Inl e \<Rightarrow> Inl (e, s) | Inr this1 \<Rightarrow> Inr (s, this1))"
  by (simp add: fromAny_def)

lemma fromInt_Big_cut:
  assumes "m \<noteq> 0" "nat \<lceil>\<bar>m\<bar>\<rceil> < length (bigint_toString2 v)"
  shows "fromInt (Big v) (Some m) (Some True) this =
           Inr \<lparr>val = Some (drop_bit (length (bigint_toString2 v) - nat \<lceil>\<bar>m\<bar>\<rceil>) v),
                bits = nat \<lceil>\<bar>m\<bar>\<rceil>\<rparr>"
    and "fromInt (Big v) (Some m) (Some False) this =
           Inl (Error (''ERR4. Bit-length '' @ dec_digits (length (bigint_toString2 v)) @
                       '' exceeded the limit '' @ dec_digits (nat \<lceil>\<bar>m\<bar>\<rceil>)))"
  using assms by (simp_all add: fromInt_def setBits_byMax_def truthy_def Let_def)


lemma baseLabel_2_initial:
  "baseLabel (Some ''2'') kx_initial =
     Inr (''2h'', \<lparr>base = 2, alphabet = ''01'', bitsPerDigit = 1, isHierar = True,
                    isDefault = True, label = ''2h''\<rparr>)"
  by (simp add: baseLabel_def kx_initial_def toLowerCase_def Let_def)

lemma fromAny_Num:
  "fromAny (Val (Num x)) radix maxBits flag this s =
     (case fromInt (Num x) maxBits (Some (case flag of None \<Rightarrow> True | Some c \<Rightarrow> c)) this of
        Inl e \<Rightarrow> Inl (e, s) | Inr this1 \<Rightarrow> Inr (s, this1))"
  by (simp add: fromAny_def)

lemma fromInt_Num: "fromInt (Num x) maxBits flag this = fromInt (Big (ToUint32 x)) maxBits flag this"
  by (simp add: fromInt_def)

lemma fromAny_Str2:
  "b \<noteq> [] \<Longrightarrow> radix \<noteq> [] \<Longrightarrow> baseLabel (Some radix) s = Inr (k, r) \<Longrightarrow> base r = 2 \<Longrightarrow>
   fromAny (Val (Str b)) (Some radix) maxBits flag this s =
     (case fromBitString b maxBits (Some (case flag of None \<Rightarrow> True | Some c \<Rightarrow> c)) this of
        Inl e \<Rightarrow> Inl (e, s) | Inr this1 \<Rightarrow> Inr (s, this1))"
  by (simp add: fromAny_def fromString_def)

lemma fromAny_Inst:
  "fromAny (Inst x) radix maxBits flag this s =
   fromAny (Val (case val x of None \<Rightarrow> Null | Some y \<Rightarrow> Big y)) None (Some (of_nat (bits x))) flag
     this s"
  by (simp add: fromAny_def split: option.splits)

lemma fromAny_Triple:
  "(\<forall>x b. w \<noteq> Obj x b) \<Longrightarrow>
   fromAny (Triple w r m') radix maxBits flag this s = fromAny (Val w) r m' flag this s"
  by (cases w) (simp_all add: fromAny_def)

lemma fromBitString_cut:
  assumes "m \<noteq> 0" "list_all is_bit b" "nat \<lceil>\<bar>m\<bar>\<rceil> < length b"
  shows "fromBitString b (Some m) (Some True) this =
           Inr \<lparr>val = Some (foldl (\<lambda>a c. 2 * a + (if c = CHR ''1'' then 1 else 0)) 0
                               (take (nat \<lceil>\<bar>m\<bar>\<rceil>) b)),
                bits = nat \<lceil>\<bar>m\<bar>\<rceil>\<rparr>"
    and "fromBitString b (Some m) (Some False) this =
           Inl (Error (''ERR4. Bit-length '' @ dec_digits (length b) @
                       '' exceeded the limit '' @ dec_digits (nat \<lceil>\<bar>m\<bar>\<rceil>)))"
proof -
  have ne: "b \<noteq> []" using assms(3) by auto
  have pos: "0 < nat \<lceil>\<bar>m\<bar>\<rceil>" using assms(1) by simp
  have t: "take (nat \<lceil>\<bar>m\<bar>\<rceil>) b \<noteq> []" using ne pos by (cases b) auto
  have a: "list_all is_bit (take (nat \<lceil>\<bar>m\<bar>\<rceil>) b)"
    using assms(2) by (auto simp: list_all_iff dest: in_set_takeD)
  show "fromBitString b (Some m) (Some True) this =
           Inr \<lparr>val = Some (foldl (\<lambda>a c. 2 * a + (if c = CHR ''1'' then 1 else 0)) 0
                               (take (nat \<lceil>\<bar>m\<bar>\<rceil>) b)),
                bits = nat \<lceil>\<bar>m\<bar>\<rceil>\<rparr>"
    using assms ne t a
    by (simp add: fromBitString_def setBits_byMax_def truthy_def Let_def BigInt_0b_bits)
  show "fromBitString b (Some m) (Some False) this =
           Inl (Error (''ERR4. Bit-length '' @ dec_digits (length b) @
                       '' exceeded the limit '' @ dec_digits (nat \<lceil>\<bar>m\<bar>\<rceil>)))"
    using assms ne
    by (simp add: fromBitString_def setBits_byMax_def truthy_def Let_def)
qed

text \<open>
  Claim C8, as far as it holds. When an instance is constructed from a BigInt, from a Number
  (read as the unsigned 32-bit integer \<open>val >>> 0\<close>) or from a string of binary digits read
  in a base-2 radix, with a non-zero \<open>maxBits\<close>, and the input is longer than
  \<open>ceil(abs(maxBits))\<close> bits (the length of the binary numeral, resp. of the string): with \<open>onErr_cutLSD = false\<close> the construction
  fails with the error \<open>ERR4\<close>; with \<open>onErr_cutLSD = true\<close> the least significant bits are
  dropped and the narrower width is recorded; and a caller that leaves the flag out gets the
  second behaviour, \<open>true\<close> being the default of the signature. An instance given as input
  brings its own width, and an array its own radix and \<open>maxBits\<close>, which replace the
  caller's.
\<close>

theorem bit_width_policy:
  "(m \<noteq> 0 \<and> nat \<lceil>\<bar>m\<bar>\<rceil> < length (bigint_toString2 v) \<longrightarrow>
      map_sum fst snd (SizedBigInt_new (Val (Big v)) radix (Some m) (Some False) g) =
        Inl (Error (''ERR4. Bit-length '' @ dec_digits (length (bigint_toString2 v)) @
                    '' exceeded the limit '' @ dec_digits (nat \<lceil>\<bar>m\<bar>\<rceil>))) \<and>
      map_sum fst snd (SizedBigInt_new (Val (Big v)) radix (Some m) (Some True) g) =
        Inr \<lparr>val = Some (drop_bit (length (bigint_toString2 v) - nat \<lceil>\<bar>m\<bar>\<rceil>) v),
             bits = nat \<lceil>\<bar>m\<bar>\<rceil>\<rparr> \<and>
      SizedBigInt_new (Val (Big v)) radix (Some m) None g =
        SizedBigInt_new (Val (Big v)) radix (Some m) (Some True) g) \<and>
   (m \<noteq> 0 \<and> nat \<lceil>\<bar>m\<bar>\<rceil> < length (bigint_toString2 (ToUint32 x)) \<longrightarrow>
      map_sum fst snd (SizedBigInt_new (Val (Num x)) radix (Some m) (Some False) g) =
        Inl (Error (''ERR4. Bit-length '' @ dec_digits (length (bigint_toString2 (ToUint32 x))) @
                    '' exceeded the limit '' @ dec_digits (nat \<lceil>\<bar>m\<bar>\<rceil>))) \<and>
      map_sum fst snd (SizedBigInt_new (Val (Num x)) radix (Some m) (Some True) g) =
        Inr \<lparr>val = Some (drop_bit (length (bigint_toString2 (ToUint32 x)) - nat \<lceil>\<bar>m\<bar>\<rceil>)
                            (ToUint32 x)),
             bits = nat \<lceil>\<bar>m\<bar>\<rceil>\<rparr> \<and>
      SizedBigInt_new (Val (Num x)) radix (Some m) None g =
        SizedBigInt_new (Val (Num x)) radix (Some m) (Some True) g) \<and>
   (m \<noteq> 0 \<and> list_all is_bit b \<and> nat \<lceil>\<bar>m\<bar>\<rceil> < length b \<and> rdx \<noteq> [] \<and>
    kx_RefreshDefaults g = Inr s \<and> baseLabel (Some rdx) s = Inr (k, r) \<and> base r = 2 \<longrightarrow>
      map_sum fst snd (SizedBigInt_new (Val (Str b)) (Some rdx) (Some m) (Some False) g) =
        Inl (Error (''ERR4. Bit-length '' @ dec_digits (length b) @
                    '' exceeded the limit '' @ dec_digits (nat \<lceil>\<bar>m\<bar>\<rceil>))) \<and>
      map_sum fst snd (SizedBigInt_new (Val (Str b)) (Some rdx) (Some m) (Some True) g) =
        Inr \<lparr>val = Some (foldl (\<lambda>a c. 2 * a + (if c = CHR ''1'' then 1 else 0)) 0
                            (take (nat \<lceil>\<bar>m\<bar>\<rceil>) b)),
             bits = nat \<lceil>\<bar>m\<bar>\<rceil>\<rparr> \<and>
      SizedBigInt_new (Val (Str b)) (Some rdx) (Some m) None g =
        SizedBigInt_new (Val (Str b)) (Some rdx) (Some m) (Some True) g) \<and>
   SizedBigInt_new (Inst y) radix maxBits flag g =
     SizedBigInt_new (Val (case val y of None \<Rightarrow> Null | Some z \<Rightarrow> Big z)) None
       (Some (of_nat (bits y))) flag g \<and>
   ((\<forall>z n. w \<noteq> Obj z n) \<longrightarrow>
      SizedBigInt_new (Triple w radix' maxBits') radix maxBits flag g =
        SizedBigInt_new (Val w) radix' maxBits' flag g)"
proof (intro conjI impI)
  assume a: "m \<noteq> 0 \<and> nat \<lceil>\<bar>m\<bar>\<rceil> < length (bigint_toString2 v)"
  obtain s where s: "kx_RefreshDefaults g = Inr s" using kx_RefreshDefaults_ok by blast
  note c = fromInt_Big_cut[of m v] a
  show "map_sum fst snd (SizedBigInt_new (Val (Big v)) radix (Some m) (Some False) g) =
        Inl (Error (''ERR4. Bit-length '' @ dec_digits (length (bigint_toString2 v)) @
                    '' exceeded the limit '' @ dec_digits (nat \<lceil>\<bar>m\<bar>\<rceil>)))"
    using c by (simp add: SizedBigInt_new_def s fromAny_Big)
  show "map_sum fst snd (SizedBigInt_new (Val (Big v)) radix (Some m) (Some True) g) =
        Inr \<lparr>val = Some (drop_bit (length (bigint_toString2 v) - nat \<lceil>\<bar>m\<bar>\<rceil>) v),
             bits = nat \<lceil>\<bar>m\<bar>\<rceil>\<rparr>"
    using c by (simp add: SizedBigInt_new_def s fromAny_Big)
  show "SizedBigInt_new (Val (Big v)) radix (Some m) None g =
        SizedBigInt_new (Val (Big v)) radix (Some m) (Some True) g"
    by (simp add: SizedBigInt_new_def s fromAny_Big)
next
  assume a: "m \<noteq> 0 \<and> nat \<lceil>\<bar>m\<bar>\<rceil> < length (bigint_toString2 (ToUint32 x))"
  obtain s where s: "kx_RefreshDefaults g = Inr s" using kx_RefreshDefaults_ok by blast
  note c = fromInt_Big_cut[of m "ToUint32 x"] a
  show "map_sum fst snd (SizedBigInt_new (Val (Num x)) radix (Some m) (Some False) g) =
        Inl (Error (''ERR4. Bit-length '' @ dec_digits (length (bigint_toString2 (ToUint32 x))) @
                    '' exceeded the limit '' @ dec_digits (nat \<lceil>\<bar>m\<bar>\<rceil>)))"
    using c by (simp add: SizedBigInt_new_def s fromAny_Num fromInt_Num)
  show "map_sum fst snd (SizedBigInt_new (Val (Num x)) radix (Some m) (Some True) g) =
        Inr \<lparr>val = Some (drop_bit (length (bigint_toString2 (ToUint32 x)) - nat \<lceil>\<bar>m\<bar>\<rceil>)
                            (ToUint32 x)),
             bits = nat \<lceil>\<bar>m\<bar>\<rceil>\<rparr>"
    using c by (simp add: SizedBigInt_new_def s fromAny_Num fromInt_Num)
  show "SizedBigInt_new (Val (Num x)) radix (Some m) None g =
        SizedBigInt_new (Val (Num x)) radix (Some m) (Some True) g"
    by (simp add: SizedBigInt_new_def s fromAny_Num)
next
  assume a: "m \<noteq> 0 \<and> list_all is_bit b \<and> nat \<lceil>\<bar>m\<bar>\<rceil> < length b \<and> rdx \<noteq> [] \<and>
    kx_RefreshDefaults g = Inr s \<and> baseLabel (Some rdx) s = Inr (k, r) \<and> base r = 2"
  then have ne: "b \<noteq> []" by auto
  from a have s: "kx_RefreshDefaults g = Inr s" by simp
  from a have f: "fromAny (Val (Str b)) (Some rdx) maxBits flag this s =
     (case fromBitString b maxBits (Some (case flag of None \<Rightarrow> True | Some c \<Rightarrow> c)) this of
        Inl e \<Rightarrow> Inl (e, s) | Inr this1 \<Rightarrow> Inr (s, this1))" for maxBits flag this
    using fromAny_Str2[OF ne, of rdx s k r] by simp
  note c = fromBitString_cut[of m b] a
  show "map_sum fst snd (SizedBigInt_new (Val (Str b)) (Some rdx) (Some m) (Some False) g) =
        Inl (Error (''ERR4. Bit-length '' @ dec_digits (length b) @
                    '' exceeded the limit '' @ dec_digits (nat \<lceil>\<bar>m\<bar>\<rceil>)))"
    using c by (simp add: SizedBigInt_new_def s f)
  show "map_sum fst snd (SizedBigInt_new (Val (Str b)) (Some rdx) (Some m) (Some True) g) =
        Inr \<lparr>val = Some (foldl (\<lambda>a c. 2 * a + (if c = CHR ''1'' then 1 else 0)) 0
                            (take (nat \<lceil>\<bar>m\<bar>\<rceil>) b)),
             bits = nat \<lceil>\<bar>m\<bar>\<rceil>\<rparr>"
    using c by (simp add: SizedBigInt_new_def s f)
  show "SizedBigInt_new (Val (Str b)) (Some rdx) (Some m) None g =
        SizedBigInt_new (Val (Str b)) (Some rdx) (Some m) (Some True) g"
    by (simp add: SizedBigInt_new_def s f)
next
  show "SizedBigInt_new (Inst y) radix maxBits flag g =
     SizedBigInt_new (Val (case val y of None \<Rightarrow> Null | Some z \<Rightarrow> Big z)) None
       (Some (of_nat (bits y))) flag g"
  proof -
    obtain s where s: "kx_RefreshDefaults g = Inr s" using kx_RefreshDefaults_ok by blast
    show ?thesis by (simp add: SizedBigInt_new_def s fromAny_Inst)
  qed
next
  assume w: "\<forall>z n. w \<noteq> Obj z n"
  obtain s where s: "kx_RefreshDefaults g = Inr s" using kx_RefreshDefaults_ok by blast
  from w show "SizedBigInt_new (Triple w radix' maxBits') radix maxBits flag g =
        SizedBigInt_new (Val w) radix' maxBits' flag g"
    by (simp add: SizedBigInt_new_def s fromAny_Triple)
qed

lemma ceiling_two: "nat \<lceil>\<bar>2 :: rat\<bar>\<rceil> = 2"
  by simp

lemma dec_digits_small:
  "dec_digits 4 = ''4''" "dec_digits 2 = ''2''" "dec_digits (Suc (Suc (Suc (Suc 0)))) = ''4''"
  by code_simp+

lemma len_11: "length (bigint_toString2 11) = 4"
  by (simp add: bigint_toString2_def bin_digits.simps)

lemma ToUint32_11: "ToUint32 (Fin 11) = 11"
  by (simp add: ToUint32_def)

theorem bit_width_policy_witness:
  "(2 :: rat) \<noteq> 0 \<and> nat \<lceil>\<bar>2 :: rat\<bar>\<rceil> < length (bigint_toString2 11) \<and>
   map_sum fst snd (SizedBigInt_new (Val (Big 11)) None (Some 2) (Some False) None) =
     Inl (Error ''ERR4. Bit-length 4 exceeded the limit 2'') \<and>
   map_sum fst snd (SizedBigInt_new (Val (Big 11)) None (Some 2) (Some True) None) =
     Inr \<lparr>val = Some 2, bits = 2\<rparr> \<and>
   nat \<lceil>\<bar>2 :: rat\<bar>\<rceil> < length (bigint_toString2 (ToUint32 (Fin 11))) \<and>
   map_sum fst snd (SizedBigInt_new (Val (Num (Fin 11))) None (Some 2) (Some False) None) =
     Inl (Error ''ERR4. Bit-length 4 exceeded the limit 2'') \<and>
   map_sum fst snd (SizedBigInt_new (Val (Num (Fin 11))) None (Some 2) (Some True) None) =
     Inr \<lparr>val = Some 2, bits = 2\<rparr> \<and>
   list_all is_bit ''1011'' \<and> nat \<lceil>\<bar>2 :: rat\<bar>\<rceil> < length ''1011'' \<and> ''2'' \<noteq> [] \<and>
   kx_RefreshDefaults None = Inr kx_initial \<and>
   baseLabel (Some ''2'') kx_initial =
     Inr (''2h'', \<lparr>base = 2, alphabet = ''01'', bitsPerDigit = 1, isHierar = True,
                    isDefault = True, label = ''2h''\<rparr>) \<and>
   base \<lparr>base = 2, alphabet = ''01'', bitsPerDigit = 1, isHierar = True,
         isDefault = True, label = ''2h''\<rparr> = 2 \<and>
   map_sum fst snd (SizedBigInt_new (Val (Str ''1011'')) (Some ''2'') (Some 2) (Some False) None) =
     Inl (Error ''ERR4. Bit-length 4 exceeded the limit 2'') \<and>
   map_sum fst snd (SizedBigInt_new (Val (Str ''1011'')) (Some ''2'') (Some 2) (Some True) None) =
     Inr \<lparr>val = Some 2, bits = 2\<rparr> \<and>
   map_sum fst snd
     (SizedBigInt_new (Inst \<lparr>val = Some 11, bits = 4\<rparr>) None (Some 2) (Some False) None) =
     Inr \<lparr>val = Some 11, bits = 4\<rparr> \<and>
   (\<forall>z n. Big 11 \<noteq> Obj z n) \<and>
   map_sum fst snd
     (SizedBigInt_new (Triple (Big 11) None (Some 4)) None (Some 2) (Some False) None) =
     Inr \<lparr>val = Some 11, bits = 4\<rparr>"
proof -
  let ?r = "\<lparr>base = 2, alphabet = ''01'', bitsPerDigit = 1, isHierar = True,
         isDefault = True, label = ''2h''\<rparr>"
  have h1: "(2 :: rat) \<noteq> 0 \<and> nat \<lceil>\<bar>2 :: rat\<bar>\<rceil> < length (bigint_toString2 11)"
    by (simp add: len_11)
  have h2: "(2 :: rat) \<noteq> 0 \<and> nat \<lceil>\<bar>2 :: rat\<bar>\<rceil> < length (bigint_toString2 (ToUint32 (Fin 11)))"
    by (simp add: len_11 ToUint32_11)
  have h3: "(2 :: rat) \<noteq> 0 \<and> list_all is_bit ''1011'' \<and> nat \<lceil>\<bar>2 :: rat\<bar>\<rceil> < length ''1011'' \<and>
    ''2'' \<noteq> [] \<and> kx_RefreshDefaults None = Inr kx_initial \<and>
    baseLabel (Some ''2'') kx_initial = Inr (''2h'', ?r) \<and> base ?r = 2"
    by (simp add: is_bit_def kx_RefreshDefaults_None baseLabel_2_initial)
  have h4: "\<forall>z n. Big 11 \<noteq> Obj z n" by simp
  note t = bit_width_policy[where m = 2 and v = 11 and radix = None and g = None
      and x = "Fin 11" and b = "''1011''" and rdx = "''2''" and s = kx_initial
      and k = "''2h''" and r = ?r and w = "Big 11" and radix' = None and maxBits' = "Some 4"
      and maxBits = "Some 2" and flag = "Some False" and y = "\<lparr>val = Some 11, bits = 4\<rparr>"]
  have n: "map_sum fst snd (SizedBigInt_new (Val (Big 11)) None (Some 4) (Some False) None) =
     Inr \<lparr>val = Some 11, bits = 4\<rparr>"
    by (simp add: len_11 SizedBigInt_new_def kx_RefreshDefaults_None fromAny_Big fromInt_def
          setBits_byMax_def truthy_def Let_def)
  from t h1 have a: "map_sum fst snd (SizedBigInt_new (Val (Big 11)) None (Some 2) (Some False) None) =
     Inl (Error ''ERR4. Bit-length 4 exceeded the limit 2'')"
    by (simp add: len_11 dec_digits_small)
  from t h1 have b: "map_sum fst snd (SizedBigInt_new (Val (Big 11)) None (Some 2) (Some True) None) =
     Inr \<lparr>val = Some 2, bits = 2\<rparr>"
    by (simp add: len_11)
  from t h2 have c: "map_sum fst snd (SizedBigInt_new (Val (Num (Fin 11))) None (Some 2) (Some False) None) =
     Inl (Error ''ERR4. Bit-length 4 exceeded the limit 2'')"
    by (simp add: len_11 dec_digits_small ToUint32_11)
  from t h2 have d: "map_sum fst snd (SizedBigInt_new (Val (Num (Fin 11))) None (Some 2) (Some True) None) =
     Inr \<lparr>val = Some 2, bits = 2\<rparr>"
    by (simp add: len_11 ToUint32_11)
  from t h3 have e: "map_sum fst snd (SizedBigInt_new (Val (Str ''1011'')) (Some ''2'') (Some 2) (Some False) None) =
     Inl (Error ''ERR4. Bit-length 4 exceeded the limit 2'')"
    by (simp add: dec_digits_small)
  from t h3 have f: "map_sum fst snd (SizedBigInt_new (Val (Str ''1011'')) (Some ''2'') (Some 2) (Some True) None) =
     Inr \<lparr>val = Some 2, bits = 2\<rparr>"
    by simp
  from t have i: "SizedBigInt_new (Inst \<lparr>val = Some 11, bits = 4\<rparr>) None (Some 2) (Some False) None =
     SizedBigInt_new (Val (Big 11)) None (Some 4) (Some False) None"
    by simp
  from t h4 have g: "SizedBigInt_new (Triple (Big 11) None (Some 4)) None (Some 2) (Some False) None =
     SizedBigInt_new (Val (Big 11)) None (Some 4) (Some False) None"
    by blast
  show ?thesis using h1 h2 h3 h4 a b c d e f unfolding i g n by blast
qed

text \<open>
  \<open>new SizedBigInt(11n, undefined, 2)\<close>: the value needs 4 bits, the caller has said nothing
  about truncation, and the result is the truncated value \<open>2\<close> on \<open>2\<close> bits.
\<close>

theorem bit_width_policy_counterexample:
  "nat \<lceil>\<bar>2 :: rat\<bar>\<rceil> < length (bigint_toString2 11) \<and>
   map_sum fst snd (SizedBigInt_new (Val (Big 11)) None (Some 2) None None) =
     Inr \<lparr>val = Some 2, bits = 2\<rparr>"
  by (simp add: len_11 SizedBigInt_new_def kx_RefreshDefaults_None fromAny_Big fromInt_def
        setBits_byMax_def truthy_def Let_def)

section \<open>Verification: printing and parsing sized integers\<close>

lemma toString_loop_eq:
  "0 < bpd \<Longrightarrow> toString_loop tr bpd b i r = Some (r @ render_chunks tr bpd (drop i b))"
proof (induction "length b - i" arbitrary: i r rule: less_induct)
  case less
  show ?case
  proof (cases "i < length b")
    case True
    then have d: "drop i b \<noteq> []" by simp
    have "length b - (i + bpd) < length b - i" using True less.prems by simp
    from less.hyps[OF this less.prems]
    have "toString_loop tr bpd b (i + bpd) (r @ tr_get tr (take bpd (drop i b)))
          = Some ((r @ tr_get tr (take bpd (drop i b))) @ render_chunks tr bpd (drop (i + bpd) b))" .
    moreover have "render_chunks tr bpd (drop i b)
          = tr_get tr (take bpd (drop i b)) @ render_chunks tr bpd (drop (i + bpd) b)"
      using d less.prems by (subst render_chunks.simps) (simp add: add.commute)
    ultimately show ?thesis using True
      by (subst toString_loop.simps) simp
  next
    case False
    then show ?thesis
      by (subst toString_loop.simps, subst render_chunks.simps) simp
  qed
qed

lemma render_chunks_append:
  "bpd dvd length b \<Longrightarrow> render_chunks tr bpd (b @ t) = render_chunks tr bpd b @ render_chunks tr bpd t"
proof (induction "length b" arbitrary: b rule: less_induct)
  case less
  show ?case
  proof (cases "b = [] \<or> bpd = 0")
    case True
    then have "b = []" using less.prems by auto
    then show ?thesis by (subst (2) render_chunks.simps) simp
  next
    case False
    then have ne: "b \<noteq> []" and pos: "0 < bpd" by simp_all
    have le: "bpd \<le> length b" using less.prems ne by (auto dest: dvd_imp_le)
    have d: "bpd dvd length (drop bpd b)" using less.prems le by simp
    have l: "length (drop bpd b) < length b" using ne pos by simp
    have tk: "take bpd (b @ t) = take bpd b" using le by simp
    have dr: "drop bpd (b @ t) = drop bpd b @ t" using le by simp
    have "render_chunks tr bpd (b @ t)
          = tr_get tr (take bpd (b @ t)) @ render_chunks tr bpd (drop bpd (b @ t))"
      using ne pos by (subst render_chunks.simps) (simp del: take_append drop_append)
    also have "\<dots> = tr_get tr (take bpd b) @ render_chunks tr bpd (drop bpd b @ t)"
      unfolding tk dr ..
    also have "\<dots> = tr_get tr (take bpd b) @ render_chunks tr bpd (drop bpd b)
                    @ render_chunks tr bpd t"
      using less.hyps[OF l d] by simp
    finally have e: "render_chunks tr bpd (b @ t) = tr_get tr (take bpd b)
                    @ render_chunks tr bpd (drop bpd b) @ render_chunks tr bpd t" .
    have "tr_get tr (take bpd b) @ render_chunks tr bpd (drop bpd b) = render_chunks tr bpd b"
      using ne pos by (subst (2) render_chunks.simps) simp
    then show ?thesis using e by (metis append.assoc)
  qed
qed

lemma bits_value_snoc: "bits_value (xs @ [c]) = 2 * bits_value xs + (if c = CHR ''1'' then 1 else 0)"
  by (simp add: bits_value_def)

lemma bits_value_nonneg: "0 \<le> bits_value b"
  by (induction b rule: rev_induct) (simp_all add: bits_value_snoc, simp add: bits_value_def)

lemma bin_digits_double:
  "d < 2 \<Longrightarrow> bin_digits (2 * n + d) =
     (if n = 0 then [if d = 0 then CHR ''0'' else CHR ''1'']
      else bin_digits n @ [if d = 0 then CHR ''0'' else CHR ''1''])"
  by (subst bin_digits.simps) (auto simp: bin_digits.simps[of 0])


lemma pad_bin_digits:
  "list_all is_bit b \<Longrightarrow> b \<noteq> [] \<Longrightarrow>
   padStart (length b) CHR ''0'' (bin_digits (nat (bits_value b))) = b"
proof (induction b rule: rev_induct)
  case Nil
  then show ?case by simp
next
  case (snoc c xs)
  have c: "c = CHR ''0'' \<or> c = CHR ''1''" using snoc.prems(1) by (simp add: is_bit_def)
  define d :: nat where "d = (if c = CHR ''1'' then 1 else 0)"
  have d2: "d < 2" by (simp add: d_def)
  have dc: "(if d = 0 then CHR ''0'' else CHR ''1'') = c" using c by (auto simp: d_def)
  have v: "nat (bits_value (xs @ [c])) = 2 * nat (bits_value xs) + d"
    using bits_value_nonneg[of xs] by (simp add: bits_value_snoc d_def nat_add_distrib nat_mult_distrib)
  show ?case
  proof (cases "xs = []")
    case True
    then show ?thesis using c
      by (auto simp: bits_value_def padStart_def bin_digits.simps)
  next
    case False
    have xs: "list_all is_bit xs" using snoc.prems(1) by simp
    note IH = snoc.IH[OF xs False]
    have len: "length (bin_digits (nat (bits_value xs))) \<le> length xs"
    proof -
      have "length (padStart (length xs) CHR ''0'' (bin_digits (nat (bits_value xs)))) = length xs"
        by (simp only: IH)
      then show ?thesis by (simp add: padStart_def)
    qed
    show ?thesis
    proof (cases "nat (bits_value xs) = 0")
      case True
      then have "xs = replicate (length xs - 1) CHR ''0'' @ ''0''"
        using IH by (simp add: padStart_def bin_digits.simps)
      then have z: "xs = replicate (length xs) CHR ''0''"
        using False by (metis One_nat_def Suc_pred length_greater_0_conv replicate_Suc
            replicate_append_same)
      have "bin_digits (nat (bits_value (xs @ [c]))) = [c]"
        unfolding v using True bin_digits_double[OF d2, of 0] dc by simp
      then have "padStart (length (xs @ [c])) CHR ''0'' (bin_digits (nat (bits_value (xs @ [c]))))
                 = replicate (length xs) CHR ''0'' @ [c]"
        by (simp add: padStart_def)
      then show ?thesis using z by simp
    next
      case False
      then have "bin_digits (nat (bits_value (xs @ [c]))) = bin_digits (nat (bits_value xs)) @ [c]"
        unfolding v using bin_digits_double[OF d2, of "nat (bits_value xs)"] dc by simp
      then have "padStart (length (xs @ [c])) CHR ''0'' (bin_digits (nat (bits_value (xs @ [c]))))
                 = padStart (length xs) CHR ''0'' (bin_digits (nat (bits_value xs))) @ [c]"
        using len by (simp add: padStart_def)
      then show ?thesis using IH by simp
    qed
  qed
qed

lemma fromBitString_plain:
  "list_all is_bit b \<Longrightarrow> b \<noteq> [] \<Longrightarrow>
   fromBitString b None None this = Inr \<lparr>val = Some (bits_value b), bits = length b\<rparr>"
  by (simp add: fromBitString_def setBits_byMax_def truthy_def BigInt_0b_bits bits_value_def)

lemma toBitString_fromBitString:
  "list_all is_bit b \<Longrightarrow> b \<noteq> [] \<Longrightarrow>
   toBitString \<lparr>val = Some (bits_value b), bits = length b\<rparr> = b"
  using bits_value_nonneg[of b]
  by (simp add: toBitString_def bigint_toString2_def pad_bin_digits)


lemma map_of_obj_set_same: "map_of (obj_set k v xs) k = Some v"
  by (induction xs) auto

lemma baseLabel_cong:
  assumes "kx_baseLabel s = kx_baseLabel s'"
  shows "baseLabel l s = baseLabel l s'"
  unfolding baseLabel_def assms ..

lemma baseLabel_initial_hier:
  "baseLabel (Some ''2h'') kx_initial =
     Inr (''2h'', \<lparr>base = 2, alphabet = ''01'', bitsPerDigit = 1, isHierar = True,
                    isDefault = True, label = ''2h''\<rparr>)"
  "baseLabel (Some ''4h'') kx_initial =
     Inr (''4h'', \<lparr>base = 4, alphabet = ''0123GQ'', bitsPerDigit = 2, isHierar = True,
                    isDefault = False, label = ''4h''\<rparr>)"
  "baseLabel (Some ''8h'') kx_initial =
     Inr (''8h'', \<lparr>base = 8, alphabet = ''01234567GHMQRV'', bitsPerDigit = 3,
                    isHierar = True, isDefault = False, label = ''8h''\<rparr>)"
  "baseLabel (Some ''16h'') kx_initial =
     Inr (''16h'', \<lparr>base = 16, alphabet = ''0123456789abcdefGHJKMNPQRSTVZY'',
                     bitsPerDigit = 4, isHierar = True, isDefault = False,
                     label = ''16h''\<rparr>)"
  by (simp_all add: baseLabel_def kx_initial_def toLowerCase_def Let_def)

lemma registry_initial_hier:
  "map_of (kx_baseLabel kx_initial) ''4h'' =
     Some (Rec \<lparr>base = 4, alphabet = ''0123GQ'', bitsPerDigit = 2, isHierar = True,
                    isDefault = False, label = ''4h''\<rparr>)"
  "map_of (kx_baseLabel kx_initial) ''8h'' =
     Some (Rec \<lparr>base = 8, alphabet = ''01234567GHMQRV'', bitsPerDigit = 3,
                    isHierar = True, isDefault = False, label = ''8h''\<rparr>)"
  "map_of (kx_baseLabel kx_initial) ''16h'' =
     Some (Rec \<lparr>base = 16, alphabet = ''0123456789abcdefGHJKMNPQRSTVZY'',
                     bitsPerDigit = 4, isHierar = True, isDefault = False,
                     label = ''16h''\<rparr>)"
  by (simp_all add: kx_initial_def)

lemma kx_trConfig_result:
  assumes "map_of (kx_baseLabel s) k = Some (Rec r)" "base r \<noteq> 2" "base r \<le> 64"
  shows "\<exists>s1 tr. kx_trConfig k s = Inr s1 \<and> kx_baseLabel s1 = kx_baseLabel s \<and>
           map_of (kx_tr s1) (''2-to-'' @ label r) = Some tr"
  using assms by (simp add: kx_trConfig_def Let_def map_of_obj_set_same)

lemma toString_with_table:
  assumes "baseLabel (Some radix) s = Inr (k, r)" "base r \<noteq> 2" "0 < bitsPerDigit r"
    and "val x = Some v" "map_of (kx_tr s) (''2-to-'' @ label r) = Some tr"
  shows "toString (Some radix) x s = Inr (s, render_chunks tr (bitsPerDigit r) (toBitString x))"
  using assms by (simp add: toString_def toString_loop_eq)

lemma toString_build_table:
  assumes "baseLabel (Some radix) s = Inr (k, r)" "base r \<noteq> 2" "0 < bitsPerDigit r"
    and "val x = Some v" "map_of (kx_tr s) (''2-to-'' @ label r) = None"
    and "kx_trConfig (label r) s = Inr s1" "map_of (kx_tr s1) (''2-to-'' @ label r) = Some tr"
  shows "toString (Some radix) x s = Inr (s1, render_chunks tr (bitsPerDigit r) (toBitString x))"
  using assms by (simp add: toString_def toString_loop_eq)

lemma toString_base2:
  assumes "baseLabel (Some radix) s = Inr (k, r)" "base r = 2" "val x = Some v"
  shows "toString (Some radix) x s = Inr (s, toBitString x)"
  using assms by (simp add: toString_def)

lemma toString_null:
  assumes "baseLabel (Some radix) s = Inr (k, r)" "val x = None"
  shows "toString (Some radix) x s = Inr (s, [])"
  using assms by (simp add: toString_def)


lemma hier_record:
  assumes "radix = ''2h'' \<or> radix = ''4h'' \<or> radix = ''8h'' \<or> radix = ''16h''"
    and "baseLabel (Some radix) kx_initial = Inr (k, r)"
  shows "0 < bitsPerDigit r \<and> base r \<le> 64 \<and>
         (base r \<noteq> 2 \<longrightarrow> map_of (kx_baseLabel kx_initial) (label r) = Some (Rec r))"
  using assms by (auto simp: baseLabel_initial_hier registry_initial_hier)

lemma render_in_state:
  assumes rad: "radix = ''2h'' \<or> radix = ''4h'' \<or> radix = ''8h'' \<or> radix = ''16h''"
    and bl: "baseLabel (Some radix) kx_initial = Inr (k, r)"
    and reg: "kx_baseLabel s = kx_baseLabel kx_initial"
    and bits: "list_all is_bit c"
  shows "\<exists>s' out. render_bits radix c s = Inr (s', out) \<and>
           kx_baseLabel s' = kx_baseLabel kx_initial \<and>
           (c = [] \<longrightarrow> out = []) \<and>
           (base r = 2 \<longrightarrow> out = c) \<and>
           (c \<noteq> [] \<and> base r \<noteq> 2 \<longrightarrow>
              (\<exists>tr. map_of (kx_tr s') (''2-to-'' @ label r) = Some tr \<and>
                    out = render_chunks tr (bitsPerDigit r) c \<and>
                    (\<forall>tr0. map_of (kx_tr s) (''2-to-'' @ label r) = Some tr0 \<longrightarrow> tr = tr0)))"
proof -
  note h = hier_record[OF rad bl]
  have bl': "baseLabel (Some radix) s = Inr (k, r)"
    using bl baseLabel_cong[OF reg] by simp
  show ?thesis
  proof (cases "c = []")
    case True
    then show ?thesis
      using reg toString_null[OF bl', of "\<lparr>val = None, bits = 0\<rparr>"]
      by (simp add: render_bits_def fromBitString_def fromNull_def)
  next
    case False
    let ?x = "\<lparr>val = Some (bits_value c), bits = length c\<rparr>"
    have x: "val ?x = Some (bits_value c)" by simp
    have r: "render_bits radix c s = toString (Some radix) ?x s"
      by (simp add: render_bits_def fromBitString_plain[OF bits False])
    have tb: "toBitString ?x = c" by (rule toBitString_fromBitString[OF bits False])
    show ?thesis
    proof (cases "base r = 2")
      case True
      then show ?thesis
        using False reg toString_base2[OF bl' True x] by (simp add: r tb)
    next
      case b2: False
      from h b2 have look: "map_of (kx_baseLabel s) (label r) = Some (Rec r)"
        and pos: "0 < bitsPerDigit r" and le: "base r \<le> 64" by (simp_all add: reg)
      show ?thesis
      proof (cases "map_of (kx_tr s) (''2-to-'' @ label r)")
        case None
        from kx_trConfig_result[OF look b2 le]
        obtain s1 tr where c: "kx_trConfig (label r) s = Inr s1"
          "kx_baseLabel s1 = kx_baseLabel s" "map_of (kx_tr s1) (''2-to-'' @ label r) = Some tr"
          by blast
        from toString_build_table[OF bl' b2 pos x None c(1) c(3)]
        show ?thesis using False b2 c(2,3) reg None by (simp add: r tb)
      next
        case (Some tr)
        from toString_with_table[OF bl' b2 pos x Some]
        show ?thesis using False b2 reg Some by (simp add: r tb)
      qed
    qed
  qed
qed

text \<open>
  Claim C3, as far as it holds. For each hierarchical base \<open>2h\<close>, \<open>4h\<close>, \<open>8h\<close>, \<open>16h\<close>, each
  bit string \<open>b\<close> whose length is a multiple of the base's \<open>bitsPerDigit\<close>, and each
  extension \<open>b @ t\<close>: the string printed for \<open>b\<close> is a prefix of the string printed for
  \<open>b @ t\<close>. (The two calls run one after the other on the class-level caches.)
\<close>

theorem hierarchical_prefix:
  "(radix = ''2h'' \<or> radix = ''4h'' \<or> radix = ''8h'' \<or> radix = ''16h'') \<and>
   baseLabel (Some radix) kx_initial = Inr (k, r) \<and>
   list_all is_bit b \<and> list_all is_bit t \<and> bitsPerDigit r dvd length b \<Longrightarrow>
   (case render_bits radix b kx_initial of
      Inl e \<Rightarrow> False
    | Inr (s1, r1) \<Rightarrow>
        (case render_bits radix (b @ t) s1 of
           Inl e \<Rightarrow> False
         | Inr (s2, r2) \<Rightarrow> prefix r1 r2))"
proof -
  assume a: "(radix = ''2h'' \<or> radix = ''4h'' \<or> radix = ''8h'' \<or> radix = ''16h'') \<and>
   baseLabel (Some radix) kx_initial = Inr (k, r) \<and>
   list_all is_bit b \<and> list_all is_bit t \<and> bitsPerDigit r dvd length b"
  then have rad: "radix = ''2h'' \<or> radix = ''4h'' \<or> radix = ''8h'' \<or> radix = ''16h''"
    and bl: "baseLabel (Some radix) kx_initial = Inr (k, r)"
    and bb: "list_all is_bit b" and bt: "list_all is_bit (b @ t)"
    and dv: "bitsPerDigit r dvd length b" by simp_all
  from render_in_state[OF rad bl refl bb]
  obtain s1 r1 where 1: "render_bits radix b kx_initial = Inr (s1, r1)"
    "kx_baseLabel s1 = kx_baseLabel kx_initial" "b = [] \<longrightarrow> r1 = []" "base r = 2 \<longrightarrow> r1 = b"
    "b \<noteq> [] \<and> base r \<noteq> 2 \<longrightarrow>
       (\<exists>tr. map_of (kx_tr s1) (''2-to-'' @ label r) = Some tr \<and>
             r1 = render_chunks tr (bitsPerDigit r) b)"
    by blast
  from render_in_state[OF rad bl 1(2) bt]
  obtain s2 r2 where 2: "render_bits radix (b @ t) s1 = Inr (s2, r2)"
    "base r = 2 \<longrightarrow> r2 = b @ t"
    "b @ t \<noteq> [] \<and> base r \<noteq> 2 \<longrightarrow>
       (\<exists>tr. r2 = render_chunks tr (bitsPerDigit r) (b @ t) \<and>
             (\<forall>tr0. map_of (kx_tr s1) (''2-to-'' @ label r) = Some tr0 \<longrightarrow> tr = tr0))"
    by blast
  have "prefix r1 r2"
  proof (cases "b = []")
    case True
    then show ?thesis using 1(3) by simp
  next
    case ne: False
    show ?thesis
    proof (cases "base r = 2")
      case True
      then show ?thesis using 1(4) 2(2) by simp
    next
      case False
      from 1(5) ne False obtain tr where tr: "map_of (kx_tr s1) (''2-to-'' @ label r) = Some tr"
        "r1 = render_chunks tr (bitsPerDigit r) b" by blast
      from 2(3) ne False tr(1) have "r2 = render_chunks tr (bitsPerDigit r) (b @ t)" by auto
      then have "r2 = r1 @ render_chunks tr (bitsPerDigit r) t"
        using render_chunks_append[OF dv] tr(2) by simp
      then show ?thesis by simp
    qed
  qed
  then show ?thesis by (simp add: 1(1) 2(1))
qed

theorem hierarchical_prefix_witness:
  "(''4h'' = ''2h'' \<or> ''4h'' = ''4h'' \<or> ''4h'' = ''8h'' \<or> ''4h'' = ''16h'') \<and>
   baseLabel (Some ''4h'') kx_initial =
     Inr (''4h'', \<lparr>base = 4, alphabet = ''0123GQ'', bitsPerDigit = 2, isHierar = True,
        isDefault = False, label = ''4h''\<rparr>) \<and>
   list_all is_bit ''01'' \<and> list_all is_bit ''1'' \<and>
   bitsPerDigit \<lparr>base = 4, alphabet = ''0123GQ'', bitsPerDigit = 2, isHierar = True,
        isDefault = False, label = ''4h''\<rparr> dvd length ''01'' \<and>
   (case render_bits ''4h'' ''01'' kx_initial of
      Inl e \<Rightarrow> False
    | Inr (s1, r1) \<Rightarrow>
        (case render_bits ''4h'' (''01'' @ ''1'') s1 of
           Inl e \<Rightarrow> False
         | Inr (s2, r2) \<Rightarrow> prefix r1 r2))"
proof -
  have h: "(''4h'' = ''2h'' \<or> ''4h'' = ''4h'' \<or> ''4h'' = ''8h'' \<or> ''4h'' = ''16h'') \<and>
   baseLabel (Some ''4h'') kx_initial =
     Inr (''4h'', \<lparr>base = 4, alphabet = ''0123GQ'', bitsPerDigit = 2, isHierar = True,
        isDefault = False, label = ''4h''\<rparr>) \<and>
   list_all is_bit ''01'' \<and> list_all is_bit ''1'' \<and>
   bitsPerDigit \<lparr>base = 4, alphabet = ''0123GQ'', bitsPerDigit = 2, isHierar = True,
        isDefault = False, label = ''4h''\<rparr> dvd length ''01''"
    by (simp add: baseLabel_initial_hier is_bit_def)
  from hierarchical_prefix[OF h] h show ?thesis by blast
qed

text \<open>
  In base \<open>4h\<close> the one-bit string \<open>0\<close> is printed as the short code \<open>G\<close>, and its
  extension \<open>00\<close> as the digit \<open>0\<close>.
\<close>

theorem hierarchical_prefix_counterexample:
  "map_sum fst snd (render_bits ''4h'' ''0'' kx_initial) = Inr ''G'' \<and>
   map_sum fst snd (render_bits ''4h'' (''0'' @ ''0'')
       (fst (projr (render_bits ''4h'' ''0'' kx_initial)))) = Inr ''0'' \<and>
   \<not> prefix ''G'' ''0''"
proof -
  have a: "map_sum fst snd (render_bits ''4h'' ''0'' kx_initial) = Inr ''G''"
    by code_simp
  have b: "map_sum fst snd (render_bits ''4h'' (''0'' @ ''0'')
       (fst (projr (render_bits ''4h'' ''0'' kx_initial)))) = Inr ''0''"
    by code_simp
  have c: "\<not> prefix ''G'' ''0''" by simp
  show ?thesis using a b c by blast
qed

text \<open>
  Claim C4 at a failing input. The instance of value \<open>1\<close> on \<open>2\<close> bits is printed in base
  \<open>4h\<close> as \<open>1\<close>; \<open>fromString("1", "4h")\<close> on a fresh instance returns \<open>null\<close> on \<open>0\<close> bits,
  and leaves the registry's record of \<open>4h\<close> with the label \<open>16js\<close>.
\<close>

theorem fromString_roundtrip_fails:
  "map_sum fst snd (toString (Some ''4h'') \<lparr>val = Some 1, bits = 2\<rparr> kx_initial) = Inr ''1'' \<and>
   map_sum fst snd
     (fromString ''1'' (Some ''4h'') None None \<lparr>val = None, bits = 0\<rparr>
        (fst (projr (toString (Some ''4h'') \<lparr>val = Some 1, bits = 2\<rparr> kx_initial)))) =
     Inr \<lparr>val = None, bits = 0\<rparr> \<and>
   map_of (kx_baseLabel (fst (projr
     (fromString ''1'' (Some ''4h'') None None \<lparr>val = None, bits = 0\<rparr>
        (fst (projr (toString (Some ''4h'') \<lparr>val = Some 1, bits = 2\<rparr> kx_initial))))))) ''4h'' =
     Some (Rec \<lparr>base = 4, alphabet = ''0123GQ'', bitsPerDigit = 2, isHierar = True,
                 isDefault = False, label = ''16js''\<rparr>)"
proof -
  have a: "map_sum fst snd (toString (Some ''4h'') \<lparr>val = Some 1, bits = 2\<rparr> kx_initial) = Inr ''1''"
    by code_simp
  have b: "map_sum fst snd
     (fromString ''1'' (Some ''4h'') None None \<lparr>val = None, bits = 0\<rparr>
        (fst (projr (toString (Some ''4h'') \<lparr>val = Some 1, bits = 2\<rparr> kx_initial)))) =
     Inr \<lparr>val = None, bits = 0\<rparr>"
    by code_simp
  have c: "map_of (kx_baseLabel (fst (projr
     (fromString ''1'' (Some ''4h'') None None \<lparr>val = None, bits = 0\<rparr>
        (fst (projr (toString (Some ''4h'') \<lparr>val = Some 1, bits = 2\<rparr> kx_initial))))))) ''4h'' =
     Some (Rec \<lparr>base = 4, alphabet = ''0123GQ'', bitsPerDigit = 2, isHierar = True,
                 isDefault = False, label = ''16js''\<rparr>)"
    by code_simp
  show ?thesis using a b c by blast
qed

section \<open>Verification: labelled curves\<close>

lemma Morton_new_level1: "map_sum fst snd (GSfc4qLbl_Morton_new (LNumber (Fin 1)) (Some ''4h'') None) =
   Inr \<lparr>level = LNumber (Fin 1), blevel = Fin 1, isHalf = False, nKeys = 4, nBKeys = 4, keyBits = 2,
        bkeyBits = 2, nRefRows = 2, needSwap = False, halfIsOptimized = False,
        base_label = Some ''4h'', sbiID = \<lparr>val = None, bits = 0\<rparr>, id0 = None,
        id0_maxBits = None, curveName = ''Morton''\<rparr>"
  by code_simp


lemma Morton_encode_negative: "Morton_bkey_encode (- 1) 0 = 0x5555555555555555"
  by (simp add: Morton_bkey_encode_def Morton__bkey_interleave_def Let_def)

lemma len_mask: "length (bigint_toString2 0x5555555555555555) = 63"
  by (simp add: bigint_toString2_def bin_digits.simps)

lemma js_Number_2: "js_Number 2 = 2"
  by (rule js_Number_exact) simp_all

lemma setBkey_byIJ_above_range:
  "js_Number (nRefRows this) - 1 < i \<or> js_Number (nRefRows this) - 1 < j \<Longrightarrow>
   setBkey_byIJ enc i j this s = Inr (s, this)"
  by (auto simp: setBkey_byIJ_def Let_def)

lemma setBkey_byIJ_minus_one:
  "setBkey_byIJ (\<lambda>this. Morton_bkey_encode) (- 1) 0
     \<lparr>level = LNumber (Fin 1), blevel = Fin 1, isHalf = False, nKeys = 4, nBKeys = 4, keyBits = 2,
        bkeyBits = 2, nRefRows = 2, needSwap = False, halfIsOptimized = False,
        base_label = Some ''4h'', sbiID = \<lparr>val = None, bits = 0\<rparr>, id0 = None,
        id0_maxBits = None, curveName = ''Morton''\<rparr> s =
   Inr (s, \<lparr>level = LNumber (Fin 1), blevel = Fin 1, isHalf = False, nKeys = 4, nBKeys = 4, keyBits = 2,
        bkeyBits = 2, nRefRows = 2, needSwap = False, halfIsOptimized = False,
        base_label = Some ''4h'', sbiID = \<lparr>val = Some 2, bits = 2\<rparr>, id0 = None,
        id0_maxBits = None, curveName = ''Morton''\<rparr>)"
  by (simp add: setBkey_byIJ_def Let_def js_Number_2 key_encode_def Morton_encode_negative
        setKey_def fromAny_def fromInt_def setBits_byMax_def truthy_def len_mask)

text \<open>
  Claim C9 at a failing input. On the object that \<open>new GSfc4qLbl_Morton(1, '4h')\<close> returns
  (\<open>nRefRows = 2\<close>, \<open>sbiID\<close> null), \<open>setBkey_byIJ(-1, 0)\<close> passes the guard \<open>i>max || j>max\<close>
  and stores the value \<open>2\<close> on \<open>2\<close> bits in \<open>sbiID\<close>.
\<close>

theorem setBkey_byIJ_negative:
  "map_sum fst snd (GSfc4qLbl_Morton_new (LNumber (Fin 1)) (Some ''4h'') None) = Inr \<lparr>level = LNumber (Fin 1), blevel = Fin 1, isHalf = False, nKeys = 4, nBKeys = 4, keyBits = 2,
        bkeyBits = 2, nRefRows = 2, needSwap = False, halfIsOptimized = False,
        base_label = Some ''4h'', sbiID = \<lparr>val = None, bits = 0\<rparr>, id0 = None,
        id0_maxBits = None, curveName = ''Morton''\<rparr> \<and>
   map_sum fst (sbiID \<circ> snd)
     (setBkey_byIJ (\<lambda>this. Morton_bkey_encode) (- 1) 0 \<lparr>level = LNumber (Fin 1), blevel = Fin 1, isHalf = False, nKeys = 4, nBKeys = 4, keyBits = 2,
        bkeyBits = 2, nRefRows = 2, needSwap = False, halfIsOptimized = False,
        base_label = Some ''4h'', sbiID = \<lparr>val = None, bits = 0\<rparr>, id0 = None,
        id0_maxBits = None, curveName = ''Morton''\<rparr>
        (fst (projr (GSfc4qLbl_Morton_new (LNumber (Fin 1)) (Some ''4h'') None)))) =
     Inr \<lparr>val = Some 2, bits = 2\<rparr>"
  by (simp add: Morton_new_level1 setBkey_byIJ_minus_one)

end
